theory Spec2Isabelle
  imports Main
begin

section \<open>Python values, dictionaries and exceptions\<close>

text \<open>
  The store of \<^verbatim>\<open>DataBase.py\<close> keeps arbitrary Python objects under hashable keys.
  Keys are a type parameter \<open>'k\<close> (hashable objects up to Python equality). A value is
  either Python's \<^verbatim>\<open>None\<close> or some other picklable object, so that "returns None"
  of the source is a value of the same type as a stored value, as it is in Python.
\<close>

datatype 'a pyobj = PyNone | Obj 'a

type_synonym ('k, 'v) dict = "'k \<rightharpoonup> 'v pyobj"

text \<open>The exceptions the modelled paths can raise.\<close>

datatype exn =
    FileNotFoundError
  | IsADirectoryError
  | EOFError
  | UnpicklingError
  | PermissionError
  | AttributeError
  | RuntimeError
  | ValueError

text \<open>\<^verbatim>\<open>key in d\<close>, \<^verbatim>\<open>d.get(key, default)\<close> and \<^verbatim>\<open>d.pop(key, default)\<close>.\<close>

definition contains :: "('k, 'v) dict \<Rightarrow> 'k \<Rightarrow> bool" where
  "contains d key = (d key \<noteq> None)"

definition dict_get :: "('k, 'v) dict \<Rightarrow> 'k \<Rightarrow> 'v pyobj \<Rightarrow> 'v pyobj" where
  "dict_get d key dflt = (case d key of Some v \<Rightarrow> v | None \<Rightarrow> dflt)"

definition dict_pop :: "('k, 'v) dict \<Rightarrow> 'k \<Rightarrow> 'v pyobj \<Rightarrow> 'v pyobj \<times> ('k, 'v) dict" where
  "dict_pop d key dflt = (case d key of Some v \<Rightarrow> (v, d(key := None)) | None \<Rightarrow> (dflt, d))"

section \<open>class DataBase\<close>

text \<open>
  The three classes form an inheritance chain; each is a record extending its base, and a
  method of a base class is a function on the record scheme, so that it applies to the
  derived objects as \<^verbatim>\<open>super().set_value\<close> does. A method that mutates \<^verbatim>\<open>self\<close>
  returns its result together with the updated object.
\<close>

record ('k, 'v) DataBase =
  data :: "('k, 'v) dict"

definition DataBase_init :: "('k, 'v, 'z) DataBase_scheme \<Rightarrow> ('k, 'v, 'z) DataBase_scheme" where
  "DataBase_init self = self\<lparr>data := Map.empty\<rparr>"

definition set_value ::
  "('k, 'v, 'z) DataBase_scheme \<Rightarrow> 'k \<Rightarrow> 'v pyobj \<Rightarrow> bool \<times> ('k, 'v, 'z) DataBase_scheme" where
  "set_value self key val =
     (if contains (data self) key then (False, self)
      else (True, self\<lparr>data := (data self)(key \<mapsto> val)\<rparr>))"

definition get_value :: "('k, 'v, 'z) DataBase_scheme \<Rightarrow> 'k \<Rightarrow> 'v pyobj" where
  "get_value self key =
     (if contains (data self) key then dict_get (data self) key PyNone
      else PyNone)"

definition delete ::
  "('k, 'v, 'z) DataBase_scheme \<Rightarrow> 'k \<Rightarrow> 'v pyobj \<times> ('k, 'v, 'z) DataBase_scheme" where
  "delete self key =
     (if contains (data self) key
      then (case dict_pop (data self) key PyNone of (v, d) \<Rightarrow> (v, self\<lparr>data := d\<rparr>))
      else (PyNone, self))"

section \<open>The backing file\<close>

text \<open>
  The serialisation format is opaque to the store: it calls \<^verbatim>\<open>pickle.dump\<close> and
  \<^verbatim>\<open>pickle.load\<close> on a file opened by name. What the store can observe of a path is
  which exception \<^verbatim>\<open>open\<close> or \<^verbatim>\<open>pickle.load\<close> raises there, or which dictionary
  comes back. A path is therefore in one of these states:
  \<^item> \<open>Missing\<close>: nothing at the path, in a directory where a file can be created;
    \<^verbatim>\<open>open(name, 'rb')\<close> raises FileNotFoundError, \<^verbatim>\<open>open(name, 'wb')\<close> creates the file;
  \<^item> \<open>Unreachable\<close>: the name is empty or its parent directory does not exist;
    \<^verbatim>\<open>open\<close> raises FileNotFoundError in both modes;
  \<^item> \<open>Uncreatable\<close>: nothing at the path, in a directory that cannot be written;
    \<^verbatim>\<open>open(name, 'rb')\<close> raises FileNotFoundError, \<^verbatim>\<open>open(name, 'wb')\<close> raises
    PermissionError;
  \<^item> \<open>Directory\<close>: the path is a directory; \<^verbatim>\<open>open\<close> raises IsADirectoryError (an
    OSError that is not a FileNotFoundError) in both modes;
  \<^item> \<open>File a b\<close>: a file with access rights \<open>a\<close> and contents \<open>b\<close>; opening it in a
    mode its rights do not allow raises PermissionError. The contents are
    \<^item> \<open>Exhausted\<close>: bytes on which \<^verbatim>\<open>pickle.load\<close> raises EOFError, "Ran out of
      input" (a file of zero bytes, or a pickle cut where an opcode is expected);
    \<^item> \<open>Malformed\<close>: bytes on which \<^verbatim>\<open>pickle.load\<close> raises
      \<^verbatim>\<open>pickle.UnpicklingError\<close> (bytes that are no pickle, such as \<^verbatim>\<open>b'garbage'\<close>,
      or a pickle cut inside an opcode's argument: "pickle data was truncated");
    \<^item> \<open>Pickle d\<close>: what \<^verbatim>\<open>pickle.dump(d, f)\<close> wrote, which \<^verbatim>\<open>pickle.load\<close> reads
      back as \<open>d\<close>.
  Values are taken to be picklable and the device to have room for the dump, and a file
  holding the pickle of an object that is not a dictionary is outside the model.
\<close>

datatype ('k, 'v) blob = Exhausted | Malformed | Pickle "('k, 'v) dict"

datatype access = ReadWrite | ReadOnly | WriteOnly | NoAccess

fun may_read :: "access \<Rightarrow> bool" where
  "may_read ReadWrite = True"
| "may_read ReadOnly = True"
| "may_read WriteOnly = False"
| "may_read NoAccess = False"

fun may_write :: "access \<Rightarrow> bool" where
  "may_write ReadWrite = True"
| "may_write ReadOnly = False"
| "may_write WriteOnly = True"
| "may_write NoAccess = False"

datatype ('k, 'v) file_state =
    Missing
  | Unreachable
  | Uncreatable
  | Directory
  | File access "('k, 'v) blob"

type_synonym ('k, 'v) files = "string \<Rightarrow> ('k, 'v) file_state"

definition open_rb :: "('k, 'v) files \<Rightarrow> string \<Rightarrow> exn + ('k, 'v) blob" where
  "open_rb fs name =
     (case fs name of
        Missing \<Rightarrow> Inl FileNotFoundError
      | Unreachable \<Rightarrow> Inl FileNotFoundError
      | Uncreatable \<Rightarrow> Inl FileNotFoundError
      | Directory \<Rightarrow> Inl IsADirectoryError
      | File a b \<Rightarrow> if may_read a then Inr b else Inl PermissionError)"

definition pickle_load :: "('k, 'v) blob \<Rightarrow> exn + ('k, 'v) dict" where
  "pickle_load b =
     (case b of
        Exhausted \<Rightarrow> Inl EOFError
      | Malformed \<Rightarrow> Inl UnpicklingError
      | Pickle d \<Rightarrow> Inr d)"

text \<open>
  \<^verbatim>\<open>open(name, 'wb')\<close> creates the file or truncates it, keeping its rights: it is
  empty until the dump. The dump replaces the contents of the file that was opened.
\<close>

definition open_wb :: "('k, 'v) files \<Rightarrow> string \<Rightarrow> exn + ('k, 'v) files" where
  "open_wb fs name =
     (case fs name of
        Missing \<Rightarrow> Inr (fs(name := File ReadWrite Exhausted))
      | Unreachable \<Rightarrow> Inl FileNotFoundError
      | Uncreatable \<Rightarrow> Inl PermissionError
      | Directory \<Rightarrow> Inl IsADirectoryError
      | File a b \<Rightarrow>
          if may_write a then Inr (fs(name := File a Exhausted)) else Inl PermissionError)"

fun overwrite :: "('k, 'v) file_state \<Rightarrow> ('k, 'v) blob \<Rightarrow> ('k, 'v) file_state" where
  "overwrite (File a old) b = File a b"
| "overwrite _ b = File ReadWrite b"

definition pickle_dump :: "('k, 'v) dict \<Rightarrow> ('k, 'v) files \<Rightarrow> string \<Rightarrow> ('k, 'v) files" where
  "pickle_dump d fs name = fs(name := overwrite (fs name) (Pickle d))"

section \<open>Effects: the object, the file system and a trace\<close>

text \<open>
  A method of the two derived classes runs in a world made of the object \<^verbatim>\<open>self\<close>, the
  file system, and the trace of the synchronisation and I/O actions performed so far.
  A call returns a value, raises an exception, or blocks for ever (an \<^verbatim>\<open>acquire\<close> that
  no other thread will ever satisfy); each outcome carries the world it leaves behind,
  since an exception does not undo the mutations made before it.
\<close>

datatype prim = WriteLock | ReadLock | ReadSemaphore | DataLock

datatype event = Acquire prim | Release prim | Load string | Dump string

record ('o, 'k, 'v) world =
  this :: 'o
  files :: "('k, 'v) files"
  trace :: "event list"

datatype ('a, 's) result = Returns 'a 's | Raises exn 's | Blocks 's

definition and_then ::
  "('s \<Rightarrow> ('a, 's) result) \<Rightarrow> ('a \<Rightarrow> 's \<Rightarrow> ('b, 's) result) \<Rightarrow> 's \<Rightarrow> ('b, 's) result" where
  "and_then m f s =
     (case m s of
        Returns a s' \<Rightarrow> f a s'
      | Raises e s' \<Rightarrow> Raises e s'
      | Blocks s' \<Rightarrow> Blocks s')"

text \<open>\<^verbatim>\<open>for _ in range(n): body\<close>\<close>

primrec repeat :: "nat \<Rightarrow> ('s \<Rightarrow> ('a, 's) result) \<Rightarrow> 's \<Rightarrow> (unit, 's) result" where
  "repeat 0 body = Returns ()"
| "repeat (Suc n) body = and_then body (\<lambda>_. repeat n body)"

section \<open>class SerializedDataBase\<close>

record ('k, 'v) SerializedDataBase = "('k, 'v) DataBase" +
  filename :: string

definition save ::
  "(('k, 'v, 'z) SerializedDataBase_scheme, 'k, 'v) world
     \<Rightarrow> (unit, (('k, 'v, 'z) SerializedDataBase_scheme, 'k, 'v) world) result" where
  "save w =
     (case open_wb (files w) (filename (this w)) of
        Inl e \<Rightarrow> Raises e w
      | Inr fs \<Rightarrow>
          Returns ()
            (w\<lparr>files := pickle_dump (data (this w)) fs (filename (this w)),
               trace := trace w @ [Dump (filename (this w))]\<rparr>))"

text \<open>
  \<^verbatim>\<open>load\<close> catches FileNotFoundError and EOFError, and no other exception.
\<close>

definition load ::
  "(('k, 'v, 'z) SerializedDataBase_scheme, 'k, 'v) world
     \<Rightarrow> (unit, (('k, 'v, 'z) SerializedDataBase_scheme, 'k, 'v) world) result" where
  "load w =
     (case (case open_rb (files w) (filename (this w)) of
              Inl e \<Rightarrow> Inl e
            | Inr b \<Rightarrow> pickle_load b) of
        Inr d \<Rightarrow>
          Returns ()
            (w\<lparr>this := (this w)\<lparr>data := d\<rparr>,
               trace := trace w @ [Load (filename (this w))]\<rparr>)
      | Inl e \<Rightarrow>
          if e = FileNotFoundError \<or> e = EOFError
          then Returns () (w\<lparr>this := (this w)\<lparr>data := Map.empty\<rparr>\<rparr>)
          else Raises e w)"

text \<open>
  \<^verbatim>\<open>__init__(self, filename)\<close>: the base initialiser sets \<^verbatim>\<open>data = {}\<close>, then the
  name is stored and the file is loaded. The object passed in is the freshly allocated
  one, whose fields hold nothing yet.
\<close>

definition SerializedDataBase_init ::
  "string \<Rightarrow> (('k, 'v, 'z) SerializedDataBase_scheme, 'k, 'v) world
     \<Rightarrow> (unit, (('k, 'v, 'z) SerializedDataBase_scheme, 'k, 'v) world) result" where
  "SerializedDataBase_init name w =
     load (w\<lparr>this := (DataBase_init (this w))\<lparr>filename := name\<rparr>\<rparr>)"

definition new_SerializedDataBase ::
  "string \<Rightarrow> ('k, 'v) files \<Rightarrow> event list
     \<Rightarrow> (unit, (('k, 'v) SerializedDataBase, 'k, 'v) world) result" where
  "new_SerializedDataBase name fs tr =
     SerializedDataBase_init name
       \<lparr>this = \<lparr>data = Map.empty, filename = []\<rparr>, files = fs, trace = tr\<rparr>"

section \<open>class SynchronizedDataBase\<close>

text \<open>
  A lock is locked or not; a semaphore holds a counter. Both come from \<^verbatim>\<open>threading\<close>
  or from \<^verbatim>\<open>multiprocessing\<close>, with the same blocking behaviour. An attribute that
  \<^verbatim>\<open>__init__\<close> never assigned is \<open>None\<close> in the record, and reading it raises
  AttributeError.
\<close>

datatype backend = Threading | Multiprocessing

datatype sync = Lock backend bool | Semaphore backend nat

record ('k, 'v) SynchronizedDataBase = "('k, 'v) SerializedDataBase" +
  data_lock :: "sync option"
  read_limit :: "nat option"
  read_lock :: "sync option"
  write_lock :: "sync option"
  read_semaphore :: "sync option"

text \<open>
  \<^verbatim>\<open>acquire()\<close> on a locked lock or on a semaphore at zero blocks; otherwise the lock is
  taken or the counter decremented. \<^verbatim>\<open>release()\<close> frees the lock or increments the
  counter; releasing a lock that is not held raises (RuntimeError from \<^verbatim>\<open>threading\<close>,
  ValueError from \<^verbatim>\<open>multiprocessing\<close>).
\<close>

fun sync_acquire :: "sync \<Rightarrow> sync option" where
  "sync_acquire (Lock b locked) = (if locked then None else Some (Lock b True))"
| "sync_acquire (Semaphore b n) = (if n = 0 then None else Some (Semaphore b (n - 1)))"

fun sync_release :: "sync \<Rightarrow> exn + sync" where
  "sync_release (Lock b locked) =
     (if locked then Inr (Lock b False)
      else (case b of Threading \<Rightarrow> Inl RuntimeError | Multiprocessing \<Rightarrow> Inl ValueError))"
| "sync_release (Semaphore b n) = Inr (Semaphore b (Suc n))"

fun getattr :: "prim \<Rightarrow> ('k, 'v) SynchronizedDataBase \<Rightarrow> sync option" where
  "getattr WriteLock self = write_lock self"
| "getattr ReadLock self = read_lock self"
| "getattr ReadSemaphore self = read_semaphore self"
| "getattr DataLock self = data_lock self"

fun setattr ::
  "prim \<Rightarrow> sync \<Rightarrow> ('k, 'v) SynchronizedDataBase \<Rightarrow> ('k, 'v) SynchronizedDataBase" where
  "setattr WriteLock s self = self\<lparr>write_lock := Some s\<rparr>"
| "setattr ReadLock s self = self\<lparr>read_lock := Some s\<rparr>"
| "setattr ReadSemaphore s self = self\<lparr>read_semaphore := Some s\<rparr>"
| "setattr DataLock s self = self\<lparr>data_lock := Some s\<rparr>"

type_synonym ('a, 'k, 'v) action =
  "(('k, 'v) SynchronizedDataBase, 'k, 'v) world
     \<Rightarrow> ('a, (('k, 'v) SynchronizedDataBase, 'k, 'v) world) result"

definition acquire :: "prim \<Rightarrow> (bool, 'k, 'v) action" where
  "acquire p w =
     (case getattr p (this w) of
        None \<Rightarrow> Raises AttributeError w
      | Some s \<Rightarrow>
          (case sync_acquire s of
             None \<Rightarrow> Blocks w
           | Some s' \<Rightarrow>
               Returns True
                 (w\<lparr>this := setattr p s' (this w), trace := trace w @ [Acquire p]\<rparr>)))"

definition release :: "prim \<Rightarrow> (unit, 'k, 'v) action" where
  "release p w =
     (case getattr p (this w) of
        None \<Rightarrow> Raises AttributeError w
      | Some s \<Rightarrow>
          (case sync_release s of
             Inl e \<Rightarrow> Raises e w
           | Inr s' \<Rightarrow>
               Returns ()
                 (w\<lparr>this := setattr p s' (this w), trace := trace w @ [Release p]\<rparr>)))"

text \<open>
  \<^verbatim>\<open>with self.lock: body\<close> acquires, runs the body, and releases on the way out,
  also when the body raises.
\<close>

definition with_stmt :: "prim \<Rightarrow> ('a, 'k, 'v) action \<Rightarrow> ('a, 'k, 'v) action" where
  "with_stmt p body =
     and_then (acquire p) (\<lambda>_ w.
       case body w of
         Returns r w' \<Rightarrow> and_then (release p) (\<lambda>_. Returns r) w'
       | Raises e w' \<Rightarrow> and_then (release p) (\<lambda>_. Raises e) w'
       | Blocks w' \<Rightarrow> Blocks w')"

definition get_read_limit :: "(nat, 'k, 'v) action" where
  "get_read_limit w =
     (case read_limit (this w) of
        None \<Rightarrow> Raises AttributeError w
      | Some n \<Rightarrow> Returns n w)"

text \<open>
  \<^verbatim>\<open>__init__(self, filename, mode)\<close>: an \<^verbatim>\<open>if\<close>/\<^verbatim>\<open>elif\<close> with no \<^verbatim>\<open>else\<close>, so any
  other mode assigns none of the three attributes.
\<close>

definition SynchronizedDataBase_init :: "string \<Rightarrow> string \<Rightarrow> (unit, 'k, 'v) action" where
  "SynchronizedDataBase_init name mode =
     and_then (SerializedDataBase_init name) (\<lambda>_ w.
       let self1 = (this w)\<lparr>data_lock := Some (Lock Multiprocessing False),
                             read_limit := Some 10\<rparr>;
           self2 =
             (if mode = ''threads'' then
                self1\<lparr>read_lock := Some (Lock Threading False),
                       write_lock := Some (Lock Threading False),
                       read_semaphore := Some (Semaphore Threading 10)\<rparr>
              else if mode = ''processes'' then
                self1\<lparr>read_lock := Some (Lock Multiprocessing False),
                       write_lock := Some (Lock Multiprocessing False),
                       read_semaphore := Some (Semaphore Multiprocessing 10)\<rparr>
              else self1)
       in Returns () (w\<lparr>this := self2\<rparr>))"

definition unallocated :: "('k, 'v) SynchronizedDataBase" where
  "unallocated =
     \<lparr>data = Map.empty, filename = [], data_lock = None, read_limit = None,
      read_lock = None, write_lock = None, read_semaphore = None\<rparr>"

definition new_SynchronizedDataBase ::
  "string \<Rightarrow> string \<Rightarrow> ('k, 'v) files \<Rightarrow> event list
     \<Rightarrow> (unit, (('k, 'v) SynchronizedDataBase, 'k, 'v) world) result" where
  "new_SynchronizedDataBase name mode fs tr =
     SynchronizedDataBase_init name mode \<lparr>this = unallocated, files = fs, trace = tr\<rparr>"

text \<open>A method of the base class applied to \<^verbatim>\<open>self\<close>: \<^verbatim>\<open>super().m(...)\<close>.\<close>

definition super_call ::
  "(('k, 'v) SynchronizedDataBase \<Rightarrow> 'a \<times> ('k, 'v) SynchronizedDataBase)
     \<Rightarrow> ('a, 'k, 'v) action" where
  "super_call m w = (case m (this w) of (r, self') \<Rightarrow> Returns r (w\<lparr>this := self'\<rparr>))"

definition value_set :: "'k \<Rightarrow> 'v pyobj \<Rightarrow> (bool, 'k, 'v) action" where
  "value_set key val =
     with_stmt WriteLock
       (with_stmt ReadLock
          (and_then get_read_limit (\<lambda>n.
           and_then (repeat n (acquire ReadSemaphore)) (\<lambda>_.
           and_then
             (with_stmt DataLock
                (and_then (super_call (\<lambda>self. set_value self key val)) (\<lambda>result.
                 and_then save (\<lambda>_.
                 Returns result)))) (\<lambda>result.
           and_then get_read_limit (\<lambda>n'.
           and_then (repeat n' (release ReadSemaphore)) (\<lambda>_.
           Returns result)))))))"

definition value_get :: "'k \<Rightarrow> ('v pyobj, 'k, 'v) action" where
  "value_get key =
     and_then (acquire ReadSemaphore) (\<lambda>acquired.
       if acquired then
         and_then load (\<lambda>_.
         and_then (\<lambda>w. Returns (get_value (this w) key) w) (\<lambda>d.
         and_then (release ReadSemaphore) (\<lambda>_.
         Returns d)))
       else Returns PyNone)"

definition value_delete :: "'k \<Rightarrow> ('v pyobj, 'k, 'v) action" where
  "value_delete key =
     with_stmt WriteLock
       (with_stmt ReadLock
          (and_then get_read_limit (\<lambda>n.
           and_then (repeat n (acquire ReadSemaphore)) (\<lambda>_.
           and_then
             (with_stmt DataLock
                (and_then (super_call (\<lambda>self. delete self key)) (\<lambda>result.
                 and_then save (\<lambda>_.
                 Returns result)))) (\<lambda>result.
           and_then get_read_limit (\<lambda>n'.
           and_then (repeat n' (release ReadSemaphore)) (\<lambda>_.
           Returns result)))))))"

section \<open>Interleaved execution\<close>

text \<open>
  Several calls run at once, in threads of one process (\<^verbatim>\<open>'threads'\<close>) or in processes
  that inherited the store (\<^verbatim>\<open>'processes'\<close>). Each call is a sequence of actions on what
  the calls share (a lock or the semaphore, the file, the dictionary) and a scheduler
  picks which call performs its next action. A program point names the action a call is
  about to perform:
  \<^item> in \<^verbatim>\<open>value_set\<close> and \<^verbatim>\<open>value_delete\<close>: entering \<^verbatim>\<open>with self.write_lock\<close>, entering
    \<^verbatim>\<open>with self.read_lock\<close>, evaluating \<^verbatim>\<open>range(self.read_limit)\<close>, the \<open>i\<close>-th
    \<^verbatim>\<open>read_semaphore.acquire()\<close> of \<open>n\<close>, entering \<^verbatim>\<open>with self.data_lock\<close>, the call of
    \<^verbatim>\<open>super().set_value\<close> or \<^verbatim>\<open>super().delete\<close>, the \<^verbatim>\<open>open(..., 'wb')\<close> and the
    \<^verbatim>\<open>pickle.dump\<close> of \<^verbatim>\<open>save\<close>, leaving the data lock, the second \<^verbatim>\<open>range\<close>, the
    \<open>i\<close>-th \<^verbatim>\<open>release()\<close> of \<open>n\<close>, leaving the read lock, leaving the write lock;
  \<^item> in \<^verbatim>\<open>value_get\<close>: the \<^verbatim>\<open>acquire()\<close>, the \<^verbatim>\<open>load()\<close>, the call of
    \<^verbatim>\<open>super().get_value\<close>, the \<^verbatim>\<open>release()\<close>.
  Leaving a \<^verbatim>\<open>with\<close> block carries the exception in flight, if any: the lock is
  released and the exception goes on to the enclosing block, past the statements that
  would have followed.
\<close>

datatype ('k, 'v) call = ValueSet 'k "'v pyobj" | ValueGet 'k | ValueDelete 'k

datatype 'v retval = RBool bool | RObj "'v pyobj"

datatype pc =
    W_enter_write
  | W_enter_read
  | W_range_drain
  | W_drain nat nat
  | W_enter_data
  | W_mutate
  | W_open
  | W_dump
  | W_exit_data "exn option"
  | W_range_refill
  | W_refill nat nat
  | W_exit_read "exn option"
  | W_exit_write "exn option"
  | R_acquire
  | R_load
  | R_lookup
  | R_release
  | Returned
  | Raised exn

text \<open>
  A running call: what was called, where it is, the address space it runs in, and its
  local variable (\<^verbatim>\<open>result\<close>, or \<^verbatim>\<open>data\<close> in \<^verbatim>\<open>value_get\<close>) once assigned.
\<close>

record ('k, 'v) thread =
  call :: "('k, 'v) call"
  at :: pc
  space :: nat
  result :: "'v retval option"

fun entry :: "('k, 'v) call \<Rightarrow> pc" where
  "entry (ValueSet k v) = W_enter_write"
| "entry (ValueGet k) = R_acquire"
| "entry (ValueDelete k) = W_enter_write"

definition drain_next :: "nat \<Rightarrow> nat \<Rightarrow> pc" where
  "drain_next i n = (if i < n then W_drain i n else W_enter_data)"

definition refill_next :: "nat \<Rightarrow> nat \<Rightarrow> pc" where
  "refill_next i n = (if i < n then W_refill i n else W_exit_read None)"

text \<open>
  The outcome of an action decides the next program point; an action that blocks is not
  enabled, and the call stays where it is.
\<close>

definition goto ::
  "('k, 'v) thread \<Rightarrow> ('a, 's) result \<Rightarrow> ('a \<Rightarrow> pc) \<Rightarrow> (exn \<Rightarrow> pc)
     \<Rightarrow> (('k, 'v) thread \<times> 's) option" where
  "goto t res ok err =
     (case res of
        Returns a w' \<Rightarrow> Some (t\<lparr>at := ok a\<rparr>, w')
      | Raises e w' \<Rightarrow> Some (t\<lparr>at := err e\<rparr>, w')
      | Blocks w' \<Rightarrow> None)"

definition step_thread ::
  "('k, 'v) thread \<Rightarrow> (('k, 'v) SynchronizedDataBase, 'k, 'v) world
     \<Rightarrow> (('k, 'v) thread \<times> (('k, 'v) SynchronizedDataBase, 'k, 'v) world) option" where
  "step_thread t w =
     (case at t of
        W_enter_write \<Rightarrow> goto t (acquire WriteLock w) (\<lambda>_. W_enter_read) Raised
      | W_enter_read \<Rightarrow>
          goto t (acquire ReadLock w) (\<lambda>_. W_range_drain) (\<lambda>e. W_exit_write (Some e))
      | W_range_drain \<Rightarrow>
          goto t (get_read_limit w) (\<lambda>n. drain_next 0 n) (\<lambda>e. W_exit_read (Some e))
      | W_drain i n \<Rightarrow>
          goto t (acquire ReadSemaphore w) (\<lambda>_. drain_next (Suc i) n)
            (\<lambda>e. W_exit_read (Some e))
      | W_enter_data \<Rightarrow>
          goto t (acquire DataLock w) (\<lambda>_. W_mutate) (\<lambda>e. W_exit_read (Some e))
      | W_mutate \<Rightarrow>
          (case call t of
             ValueSet k v \<Rightarrow>
               (case set_value (this w) k v of
                  (r, self') \<Rightarrow>
                    Some (t\<lparr>at := W_open, result := Some (RBool r)\<rparr>, w\<lparr>this := self'\<rparr>))
           | ValueDelete k \<Rightarrow>
               (case delete (this w) k of
                  (r, self') \<Rightarrow>
                    Some (t\<lparr>at := W_open, result := Some (RObj r)\<rparr>, w\<lparr>this := self'\<rparr>))
           | ValueGet k \<Rightarrow> None)
      | W_open \<Rightarrow>
          (case open_wb (files w) (filename (this w)) of
             Inl e \<Rightarrow> Some (t\<lparr>at := W_exit_data (Some e)\<rparr>, w)
           | Inr fs \<Rightarrow> Some (t\<lparr>at := W_dump\<rparr>, w\<lparr>files := fs\<rparr>))
      | W_dump \<Rightarrow>
          Some (t\<lparr>at := W_exit_data None\<rparr>,
                w\<lparr>files := pickle_dump (data (this w)) (files w) (filename (this w)),
                  trace := trace w @ [Dump (filename (this w))]\<rparr>)
      | W_exit_data pending \<Rightarrow>
          goto t (release DataLock w)
            (\<lambda>_. case pending of None \<Rightarrow> W_range_refill | Some e \<Rightarrow> W_exit_read (Some e))
            (\<lambda>e. W_exit_read (Some e))
      | W_range_refill \<Rightarrow>
          goto t (get_read_limit w) (\<lambda>n. refill_next 0 n) (\<lambda>e. W_exit_read (Some e))
      | W_refill i n \<Rightarrow>
          goto t (release ReadSemaphore w) (\<lambda>_. refill_next (Suc i) n)
            (\<lambda>e. W_exit_read (Some e))
      | W_exit_read pending \<Rightarrow>
          goto t (release ReadLock w) (\<lambda>_. W_exit_write pending) (\<lambda>e. W_exit_write (Some e))
      | W_exit_write pending \<Rightarrow>
          goto t (release WriteLock w)
            (\<lambda>_. case pending of None \<Rightarrow> Returned | Some e \<Rightarrow> Raised e) Raised
      | R_acquire \<Rightarrow>
          (case acquire ReadSemaphore w of
             Returns acquired w' \<Rightarrow>
               Some (if acquired then t\<lparr>at := R_load\<rparr>
                     else t\<lparr>at := Returned, result := Some (RObj PyNone)\<rparr>, w')
           | Raises e w' \<Rightarrow> Some (t\<lparr>at := Raised e\<rparr>, w')
           | Blocks w' \<Rightarrow> None)
      | R_load \<Rightarrow> goto t (load w) (\<lambda>_. R_lookup) Raised
      | R_lookup \<Rightarrow>
          (case call t of
             ValueGet k \<Rightarrow>
               Some (t\<lparr>at := R_release, result := Some (RObj (get_value (this w) k))\<rparr>, w)
           | _ \<Rightarrow> None)
      | R_release \<Rightarrow> goto t (release ReadSemaphore w) (\<lambda>_. Returned) Raised
      | Returned \<Rightarrow> None
      | Raised e \<Rightarrow> None)"

text \<open>
  The locks, the semaphore, the file system and the trace are shared by all calls.
  \<^verbatim>\<open>self.data\<close> is shared by the calls of one address space: all of them in
  \<^verbatim>\<open>'threads'\<close> mode, while in \<^verbatim>\<open>'processes'\<close> mode every process has its own copy. A call
  sees the shared world with the \<^verbatim>\<open>data\<close> of its address space. \<open>committed\<close> records
  the state in which the last completed \<^verbatim>\<open>pickle.dump\<close> left the file (the initial state
  before any): between the \<^verbatim>\<open>open\<close> of a \<^verbatim>\<open>save\<close>, which truncates the file, and the end
  of its dump, the file differs from it.
\<close>

record ('k, 'v) system =
  shared :: "(('k, 'v) SynchronizedDataBase, 'k, 'v) world"
  heap :: "nat \<Rightarrow> ('k, 'v) dict"
  threads :: "('k, 'v) thread list"
  committed :: "('k, 'v) file_state"

definition view ::
  "('k, 'v) system \<Rightarrow> ('k, 'v) thread \<Rightarrow> (('k, 'v) SynchronizedDataBase, 'k, 'v) world" where
  "view s t = (shared s)\<lparr>this := (this (shared s))\<lparr>data := heap s (space t)\<rparr>\<rparr>"

definition next_state :: "('k, 'v) system \<Rightarrow> nat \<Rightarrow> ('k, 'v) system option" where
  "next_state s i =
     (if i < length (threads s) then
        (case step_thread (threads s ! i) (view s (threads s ! i)) of
           None \<Rightarrow> None
         | Some (t', w') \<Rightarrow>
             Some (s\<lparr>shared := w',
                     heap := (heap s)(space (threads s ! i) := data (this w')),
                     threads := (threads s)[i := t'],
                     committed :=
                       (if at (threads s ! i) = W_dump then files w' (filename (this w'))
                        else committed s)\<rparr>))
      else None)"

inductive reachable :: "('k, 'v) system \<Rightarrow> ('k, 'v) system \<Rightarrow> bool" for s0 where
  start: "reachable s0 s0"
| step: "reachable s0 s \<Longrightarrow> next_state s i = Some s' \<Longrightarrow> reachable s0 s'"

definition spawn :: "('k, 'v) call \<times> nat \<Rightarrow> ('k, 'v) thread" where
  "spawn c = \<lparr>call = fst c, at = entry (fst c), space = snd c, result = None\<rparr>"

definition launch ::
  "(('k, 'v) SynchronizedDataBase, 'k, 'v) world \<Rightarrow> (nat \<Rightarrow> ('k, 'v) dict)
     \<Rightarrow> (('k, 'v) call \<times> nat) list \<Rightarrow> ('k, 'v) system" where
  "launch w h cs =
     \<lparr>shared = w, heap = h, threads = map spawn cs,
      committed = files w (filename (this w))\<rparr>"

text \<open>Running a schedule: the list names, action by action, the call that moves.\<close>

fun run :: "('k, 'v) system \<Rightarrow> nat list \<Rightarrow> ('k, 'v) system option" where
  "run s [] = Some s"
| "run s (i # sched) = (case next_state s i of None \<Rightarrow> None | Some s' \<Rightarrow> run s' sched)"

text \<open>One call running alone, for a given number of actions.\<close>

fun solo ::
  "nat \<Rightarrow> ('k, 'v) thread \<Rightarrow> (('k, 'v) SynchronizedDataBase, 'k, 'v) world
     \<Rightarrow> (('k, 'v) thread \<times> (('k, 'v) SynchronizedDataBase, 'k, 'v) world) option" where
  "solo 0 t w = Some (t, w)"
| "solo (Suc n) t w =
     (case step_thread t w of None \<Rightarrow> None | Some (t', w') \<Rightarrow> solo n t' w')"

section \<open>Notions used to state the properties\<close>

text \<open>
  The store is idle when no call is in progress: the three locks are free and the
  semaphore holds exactly \<^verbatim>\<open>read_limit\<close> permits. This is the state in which
  \<^verbatim>\<open>__init__\<close> leaves the object for the two recognised modes, and to which every
  completed call returns it.
\<close>

fun is_free :: "sync option \<Rightarrow> bool" where
  "is_free (Some (Lock b locked)) = (\<not> locked)"
| "is_free _ = False"

fun permits :: "sync option \<Rightarrow> nat option" where
  "permits (Some (Semaphore b n)) = Some n"
| "permits _ = None"

definition idle :: "('k, 'v) SynchronizedDataBase \<Rightarrow> bool" where
  "idle self =
     (is_free (write_lock self) \<and> is_free (read_lock self) \<and> is_free (data_lock self) \<and>
      read_limit self \<noteq> None \<and> permits (read_semaphore self) = read_limit self)"

text \<open>
  The actions of one uncontended write call, in order: take the two locks, drain the
  \<open>n\<close> permits, write the file under the data lock, give the permits back, release.
\<close>

definition write_protocol :: "nat \<Rightarrow> string \<Rightarrow> event list" where
  "write_protocol n name =
     [Acquire WriteLock, Acquire ReadLock] @ replicate n (Acquire ReadSemaphore) @
     [Acquire DataLock, Dump name, Release DataLock] @ replicate n (Release ReadSemaphore) @
     [Release ReadLock, Release WriteLock]"

text \<open>
  What \<^verbatim>\<open>open(name, 'wb')\<close> needs of a path: nothing there and room to create the file,
  or a file that may be written. A path is read-write when, besides, what is written can
  be read back. A path is loadable when \<open>load\<close> returns on it.
\<close>

fun writable :: "('k, 'v) file_state \<Rightarrow> bool" where
  "writable Missing = True"
| "writable (File a b) = may_write a"
| "writable _ = False"

fun read_write :: "('k, 'v) file_state \<Rightarrow> bool" where
  "read_write Missing = True"
| "read_write (File a b) = (may_read a \<and> may_write a)"
| "read_write _ = False"

fun loadable :: "('k, 'v) file_state \<Rightarrow> bool" where
  "loadable Directory = False"
| "loadable (File a Malformed) = False"
| "loadable (File a b) = may_read a"
| "loadable _ = True"

text \<open>The bytes at a path, when a file is there.\<close>

fun contents :: "('k, 'v) file_state \<Rightarrow> ('k, 'v) blob option" where
  "contents (File a b) = Some b"
| "contents _ = None"

text \<open>The file at the store's path holds the pickle of the in-memory mapping.\<close>

definition persisted :: "(('k, 'v) SynchronizedDataBase, 'k, 'v) world \<Rightarrow> bool" where
  "persisted w = (contents (files w (filename (this w))) = Some (Pickle (data (this w))))"

text \<open>
  A store in \<^verbatim>\<open>'threads'\<close> mode on \<^verbatim>\<open>test.pkl\<close>, as constructed, with mapping \<open>d\<close> in
  memory and the file in state \<open>f\<close>; the examples below run on it.
\<close>

definition fresh_store ::
  "(int, int) dict \<Rightarrow> (int, int) file_state
     \<Rightarrow> ((int, int) SynchronizedDataBase, int, int) world" where
  "fresh_store d f =
     \<lparr>this = \<lparr>data = d, filename = ''test.pkl'',
              data_lock = Some (Lock Multiprocessing False), read_limit = Some 10,
              read_lock = Some (Lock Threading False), write_lock = Some (Lock Threading False),
              read_semaphore = Some (Semaphore Threading 10)\<rparr>,
      files = (\<lambda>_. Missing)(''test.pkl'' := f), trace = []\<rparr>"

text \<open>
  A writer is in its mutate-and-persist section from the moment it holds every permit
  until it has left the data lock; a reader is in its restore-and-lookup section from
  its \<^verbatim>\<open>acquire\<close> to its \<^verbatim>\<open>release\<close>.
\<close>

fun writing :: "pc \<Rightarrow> bool" where
  "writing W_enter_data = True"
| "writing W_mutate = True"
| "writing W_open = True"
| "writing W_dump = True"
| "writing (W_exit_data pending) = True"
| "writing _ = False"

fun reading :: "pc \<Rightarrow> bool" where
  "reading R_load = True"
| "reading R_lookup = True"
| "reading R_release = True"
| "reading _ = False"

text \<open>The mapping a reader gets from a file state that \<open>load\<close> accepts.\<close>

definition snapshot :: "('k, 'v) file_state \<Rightarrow> ('k, 'v) dict" where
  "snapshot f = (case f of File a (Pickle d) \<Rightarrow> d | _ \<Rightarrow> Map.empty)"

text \<open>
  The permits a call holds at each program point, out of \<open>R\<close>, and the invariant of the
  interleaved system: the permits in the semaphore and in the hands of the calls never
  exceed \<open>R\<close>; the file is the committed one unless a dump is pending; a reader about to
  look up has the committed mapping in memory.
\<close>

fun held :: "nat \<Rightarrow> pc \<Rightarrow> nat" where
  "held R (W_drain i n) = i"
| "held R W_enter_data = R"
| "held R W_mutate = R"
| "held R W_open = R"
| "held R W_dump = R"
| "held R (W_exit_data pending) = R"
| "held R W_range_refill = R"
| "held R (W_refill i n) = n - i"
| "held R R_load = 1"
| "held R R_lookup = 1"
| "held R R_release = 1"
| "held R _ = 0"

fun wf_pc :: "nat \<Rightarrow> pc \<Rightarrow> bool" where
  "wf_pc R (W_drain i n) = (n = R \<and> i < n)"
| "wf_pc R (W_refill i n) = (n = R \<and> i < n)"
| "wf_pc R _ = True"

definition safe :: "nat \<Rightarrow> ('k, 'v) system \<Rightarrow> bool" where
  "safe R s \<longleftrightarrow>
     read_limit (this (shared s)) = Some R \<and>
     (\<exists>c. permits (read_semaphore (this (shared s))) = Some c \<and>
          c + sum_list (map (\<lambda>t. held R (at t)) (threads s)) \<le> R) \<and>
     (\<forall>i < length (threads s). wf_pc R (at (threads s ! i))) \<and>
     ((\<forall>i < length (threads s). at (threads s ! i) \<noteq> W_dump) \<longrightarrow>
        files (shared s) (filename (this (shared s))) = committed s) \<and>
     (\<forall>i < length (threads s). at (threads s ! i) = R_lookup \<longrightarrow>
        heap s (space (threads s ! i)) = snapshot (committed s))"

text \<open>A writer and a reader started together on a fresh store, in one address space.\<close>

definition two_calls :: "(int, int) system" where
  "two_calls =
     launch (fresh_store Map.empty Missing) (\<lambda>_. Map.empty)
       [(ValueSet 0 (Obj 1), 0), (ValueGet 0, 0)]"

section \<open>The mapping core\<close>

text \<open>
  C1. Insert-if-absent: when \<open>k\<close> is absent, \<open>set_value k v\<close> returns True, binds \<open>k\<close> to
  \<open>v\<close>, and \<open>get_value k\<close> then returns \<open>v\<close>; when \<open>k\<close> is bound to \<open>w\<close>,
  \<open>set_value k v2\<close> returns False, leaves the object as it was, and \<open>get_value k\<close> still
  returns \<open>w\<close>.
\<close>

theorem set_value_insert_if_absent:
  "(data self k = None \<longrightarrow>
      fst (set_value self k v) = True \<and>
      data (snd (set_value self k v)) k = Some v \<and>
      get_value (snd (set_value self k v)) k = v)
   \<and> (data self k = Some w \<longrightarrow>
      fst (set_value self k v2) = False \<and>
      snd (set_value self k v2) = self \<and>
      get_value (snd (set_value self k v2)) k = w)"
  by (simp add: set_value_def get_value_def contains_def dict_get_def)

theorem set_value_insert_if_absent_witness:
  "data (\<lparr>data = Map.empty\<rparr> :: (int, int) DataBase) 0 = None
   \<and> fst (set_value (\<lparr>data = Map.empty\<rparr> :: (int, int) DataBase) 0 (Obj 1)) = True
   \<and> get_value (snd (set_value (\<lparr>data = Map.empty\<rparr> :: (int, int) DataBase) 0 (Obj 1))) 0 = Obj 1
   \<and> data (\<lparr>data = [0 \<mapsto> Obj 1]\<rparr> :: (int, int) DataBase) 0 = Some (Obj 1)
   \<and> fst (set_value (\<lparr>data = [0 \<mapsto> Obj 1]\<rparr> :: (int, int) DataBase) 0 (Obj 2)) = False
   \<and> get_value (snd (set_value (\<lparr>data = [0 \<mapsto> Obj 1]\<rparr> :: (int, int) DataBase) 0 (Obj 2))) 0 = Obj 1"
proof -
  have absent: "data (\<lparr>data = Map.empty\<rparr> :: (int, int) DataBase) 0 = None"
    by simp
  have present: "data (\<lparr>data = [0 \<mapsto> Obj 1]\<rparr> :: (int, int) DataBase) 0 = Some (Obj 1)"
    by simp
  show ?thesis
    using absent present
      set_value_insert_if_absent
        [of "\<lparr>data = Map.empty\<rparr> :: (int, int) DataBase" 0 "Obj 1" "Obj 1" "Obj 2"]
      set_value_insert_if_absent
        [of "\<lparr>data = [0 \<mapsto> Obj 1]\<rparr> :: (int, int) DataBase" 0 "Obj 2" "Obj 1" "Obj 2"]
    by blast
qed

text \<open>
  C2. Delete: when \<open>k\<close> is bound to \<open>w\<close>, \<open>delete k\<close> returns \<open>w\<close> and removes the
  binding, so that \<open>get_value k\<close> then returns None; when \<open>k\<close> is absent, \<open>delete k\<close>
  returns None and the object is unchanged.
\<close>

theorem delete_then_get:
  "(data self k = Some w \<longrightarrow>
      fst (delete self k) = w \<and>
      data (snd (delete self k)) k = None \<and>
      get_value (snd (delete self k)) k = PyNone)
   \<and> (data self k = None \<longrightarrow> delete self k = (PyNone, self))"
  by (simp add: delete_def get_value_def contains_def dict_pop_def)

theorem delete_then_get_witness:
  "data (\<lparr>data = [0 \<mapsto> Obj 1]\<rparr> :: (int, int) DataBase) 0 = Some (Obj 1)
   \<and> fst (delete (\<lparr>data = [0 \<mapsto> Obj 1]\<rparr> :: (int, int) DataBase) 0) = Obj 1
   \<and> get_value (snd (delete (\<lparr>data = [0 \<mapsto> Obj 1]\<rparr> :: (int, int) DataBase) 0)) 0 = PyNone
   \<and> data (\<lparr>data = Map.empty\<rparr> :: (int, int) DataBase) 0 = None
   \<and> delete (\<lparr>data = Map.empty\<rparr> :: (int, int) DataBase) 0 = (PyNone, \<lparr>data = Map.empty\<rparr>)"
  using delete_then_get [of "\<lparr>data = [0 \<mapsto> Obj 1]\<rparr> :: (int, int) DataBase" 0 "Obj 1"]
        delete_then_get [of "\<lparr>data = Map.empty\<rparr> :: (int, int) DataBase" 0 "Obj 1"]
  by simp

text \<open>
  C9. Frame: \<open>set_value k v\<close> and \<open>delete k\<close> leave the binding of every other key
  \<open>k'\<close> as it was (and no field of the object other than \<open>data\<close> changes).
\<close>

theorem set_value_delete_frame:
  "k' \<noteq> k \<Longrightarrow>
     data (snd (set_value self k v)) k' = data self k' \<and>
     data (snd (delete self k)) k' = data self k' \<and>
     DataBase.more (snd (set_value self k v)) = DataBase.more self \<and>
     DataBase.more (snd (delete self k)) = DataBase.more self"
  by (simp add: set_value_def delete_def contains_def dict_pop_def split: option.split)

theorem set_value_delete_frame_witness:
  "(1::int) \<noteq> 0
   \<and> data (snd (set_value (\<lparr>data = [1 \<mapsto> Obj 5]\<rparr> :: (int, int) DataBase) 0 (Obj 7))) 1 = Some (Obj 5)
   \<and> data (snd (delete (\<lparr>data = [0 \<mapsto> Obj 7, 1 \<mapsto> Obj 5]\<rparr> :: (int, int) DataBase) 0)) 1 = Some (Obj 5)"
  using set_value_delete_frame
          [of 1 0 "\<lparr>data = [1 \<mapsto> Obj 5]\<rparr> :: (int, int) DataBase" "Obj 7"]
        set_value_delete_frame
          [of 1 0 "\<lparr>data = [0 \<mapsto> Obj 7, 1 \<mapsto> Obj 5]\<rparr> :: (int, int) DataBase" "Obj 7"]
  by simp

text \<open>
  The scenario of the specification, on an empty store: \<^verbatim>\<open>set("a", 1)\<close> is True,
  \<^verbatim>\<open>get("a")\<close> is 1, \<^verbatim>\<open>set("a", 2)\<close> is False, \<^verbatim>\<open>get("a")\<close> is still 1,
  \<^verbatim>\<open>delete("a")\<close> is 1, \<^verbatim>\<open>get("a")\<close> is None, \<^verbatim>\<open>delete("a")\<close> is None.
\<close>

lemma concrete_scenario:
  fixes db0 :: "(string, int) DataBase"
  assumes "db0 = DataBase_init \<lparr>data = Map.empty\<rparr>"
    and "set_value db0 ''a'' (Obj 1) = (r1, db1)"
    and "set_value db1 ''a'' (Obj 2) = (r2, db2)"
    and "delete db2 ''a'' = (r3, db3)"
    and "delete db3 ''a'' = (r4, db4)"
  shows "r1 = True \<and> get_value db1 ''a'' = Obj 1 \<and> r2 = False \<and> get_value db2 ''a'' = Obj 1
       \<and> r3 = Obj 1 \<and> get_value db3 ''a'' = PyNone \<and> r4 = PyNone"
  using assms
  by (auto simp: DataBase_init_def set_value_def get_value_def delete_def contains_def
        dict_get_def dict_pop_def)

section \<open>The durable blob store\<close>

lemma load_cases:
  "load w =
     (case files w (filename (this w)) of
        Missing \<Rightarrow> Returns () (w\<lparr>this := (this w)\<lparr>data := Map.empty\<rparr>\<rparr>)
      | Unreachable \<Rightarrow> Returns () (w\<lparr>this := (this w)\<lparr>data := Map.empty\<rparr>\<rparr>)
      | Uncreatable \<Rightarrow> Returns () (w\<lparr>this := (this w)\<lparr>data := Map.empty\<rparr>\<rparr>)
      | Directory \<Rightarrow> Raises IsADirectoryError w
      | File a b \<Rightarrow>
          if may_read a then
            (case b of
               Exhausted \<Rightarrow> Returns () (w\<lparr>this := (this w)\<lparr>data := Map.empty\<rparr>\<rparr>)
             | Malformed \<Rightarrow> Raises UnpicklingError w
             | Pickle d \<Rightarrow>
                 Returns ()
                   (w\<lparr>this := (this w)\<lparr>data := d\<rparr>,
                      trace := trace w @ [Load (filename (this w))]\<rparr>))
          else Raises PermissionError w)"
  by (simp add: load_def open_rb_def pickle_load_def split: file_state.split blob.split)

lemma overwrite_twice [simp]: "overwrite (overwrite f b) c = overwrite f c"
  by (cases f) simp_all

lemma contents_overwrite [simp]: "contents (overwrite f b) = Some b"
  by (cases f) simp_all

lemma writable_overwrite [simp]: "writable f \<Longrightarrow> writable (overwrite f b)"
  by (cases f) simp_all

lemma read_write_overwrite: "read_write f \<Longrightarrow> \<exists>a. overwrite f b = File a b \<and> may_read a"
  by (cases f) auto

lemma open_wb_cases:
  "open_wb fs name =
     (if writable (fs name) then Inr (fs(name := overwrite (fs name) Exhausted))
      else Inl (case fs name of
                  Unreachable \<Rightarrow> FileNotFoundError
                | Directory \<Rightarrow> IsADirectoryError
                | _ \<Rightarrow> PermissionError))"
  by (simp add: open_wb_def split: file_state.split)

lemma save_cases:
  "save w =
     (if writable (files w (filename (this w))) then
        Returns ()
          (w\<lparr>files := (files w)(filename (this w) :=
                          overwrite (files w (filename (this w))) (Pickle (data (this w)))),
             trace := trace w @ [Dump (filename (this w))]\<rparr>)
      else
        Raises (case files w (filename (this w)) of
                  Unreachable \<Rightarrow> FileNotFoundError
                | Directory \<Rightarrow> IsADirectoryError
                | _ \<Rightarrow> PermissionError) w)"
  by (simp add: save_def open_wb_cases pickle_dump_def)

lemma fresh_store_fields [simp]:
  "data (this (fresh_store d f)) = d"
  "filename (this (fresh_store d f)) = ''test.pkl''"
  "files (fresh_store d f) ''test.pkl'' = f"
  "trace (fresh_store d f) = []"
  "read_limit (this (fresh_store d f)) = Some 10"
  "read_semaphore (this (fresh_store d f)) = Some (Semaphore Threading 10)"
  by (simp_all add: fresh_store_def)

text \<open>
  C3, as stated, fails: \<open>load\<close> catches FileNotFoundError and EOFError only. On a file
  whose bytes are no pickle, \<^verbatim>\<open>pickle.load\<close> raises \<^verbatim>\<open>pickle.UnpicklingError\<close>, which
  reaches the caller.
\<close>

theorem load_malformed_raises:
  "load (fresh_store Map.empty (File ReadWrite Malformed))
     = Raises UnpicklingError (fresh_store Map.empty (File ReadWrite Malformed))"
  by (simp add: load_cases)

text \<open>
  C3, amended. \<open>load\<close> returns with the empty mapping when \<^verbatim>\<open>open\<close> raises
  FileNotFoundError (nothing at the path) or \<^verbatim>\<open>pickle.load\<close> finds no input (EOFError);
  it returns with the pickled mapping when the file holds one; and it raises, leaving the
  object as it was, when the bytes are no pickle (UnpicklingError) or the path cannot be
  opened for another reason (an OSError other than FileNotFoundError: the path is a
  directory, or the file may not be read).
\<close>

theorem load_outcomes:
  "(files w (filename (this w)) = Missing \<or> files w (filename (this w)) = Unreachable
    \<or> files w (filename (this w)) = Uncreatable
    \<or> files w (filename (this w)) = File a Exhausted \<and> may_read a \<longrightarrow>
      load w = Returns () (w\<lparr>this := (this w)\<lparr>data := Map.empty\<rparr>\<rparr>))
   \<and> (files w (filename (this w)) = File a (Pickle d) \<and> may_read a \<longrightarrow>
      load w = Returns () (w\<lparr>this := (this w)\<lparr>data := d\<rparr>,
                              trace := trace w @ [Load (filename (this w))]\<rparr>))
   \<and> (files w (filename (this w)) = File a Malformed \<and> may_read a \<longrightarrow>
      load w = Raises UnpicklingError w)
   \<and> (files w (filename (this w)) = Directory \<longrightarrow> load w = Raises IsADirectoryError w)
   \<and> (files w (filename (this w)) = File a b \<and> \<not> may_read a \<longrightarrow>
      load w = Raises PermissionError w)"
  by (auto simp: load_cases)

theorem load_outcomes_witness:
  "files (fresh_store [0 \<mapsto> Obj 1] Missing) (filename (this (fresh_store [0 \<mapsto> Obj 1] Missing))) = Missing
   \<and> (\<exists>w'. load (fresh_store [0 \<mapsto> Obj 1] Missing) = Returns () w' \<and> data (this w') = Map.empty)
   \<and> (\<exists>w'. load (fresh_store [0 \<mapsto> Obj 1] (File ReadOnly Exhausted)) = Returns () w'
          \<and> data (this w') = Map.empty)
   \<and> (\<exists>w'. load (fresh_store Map.empty (File ReadWrite (Pickle [0 \<mapsto> Obj 1]))) = Returns () w'
          \<and> data (this w') = [0 \<mapsto> Obj 1])
   \<and> load (fresh_store Map.empty (File ReadWrite Malformed))
        = Raises UnpicklingError (fresh_store Map.empty (File ReadWrite Malformed))
   \<and> load (fresh_store Map.empty Directory)
        = Raises IsADirectoryError (fresh_store Map.empty Directory)
   \<and> load (fresh_store Map.empty (File WriteOnly (Pickle [0 \<mapsto> Obj 1])))
        = Raises PermissionError (fresh_store Map.empty (File WriteOnly (Pickle [0 \<mapsto> Obj 1])))"
  using load_outcomes [of "fresh_store [0 \<mapsto> Obj 1] Missing" ReadWrite Map.empty Exhausted]
        load_outcomes [of "fresh_store [0 \<mapsto> Obj 1] (File ReadOnly Exhausted)" ReadOnly
          Map.empty Exhausted]
        load_outcomes [of "fresh_store Map.empty (File ReadWrite (Pickle [0 \<mapsto> Obj 1]))"
          ReadWrite "[0 \<mapsto> Obj 1]" Exhausted]
        load_outcomes [of "fresh_store Map.empty (File ReadWrite Malformed)" ReadWrite
          Map.empty Exhausted]
        load_outcomes [of "fresh_store Map.empty Directory" ReadWrite Map.empty Exhausted]
        load_outcomes [of "fresh_store Map.empty (File WriteOnly (Pickle [0 \<mapsto> Obj 1]))"
          WriteOnly Map.empty "Pickle [0 \<mapsto> Obj 1]"]
  by simp

text \<open>
  C6. Round trip: when the path is read-write (nothing is there and the file can be
  created, or a file is there that may be written and read), \<open>save\<close> returns, leaving
  the pickle of the mapping in the file, and then loading from the same path, by any
  object bound to it or by a store newly opened on it, yields the saved mapping; in
  particular \<open>get_value\<close> on the reopened store returns what it returned before. That
  \<^verbatim>\<open>pickle.load\<close> reads back what \<^verbatim>\<open>pickle.dump\<close> wrote is part of the file model.
\<close>

theorem save_load_round_trip:
  assumes "read_write (files w (filename (this w)))"
  shows "\<exists>w1. save w = Returns () w1
      \<and> contents (files w1 (filename (this w))) = Some (Pickle (data (this w)))
      \<and> (\<forall>self'. filename self' = filename (this w) \<longrightarrow>
            (\<exists>w2. load (w1\<lparr>this := self'\<rparr>) = Returns () w2 \<and> data (this w2) = data (this w)))
      \<and> (\<forall>tr. \<exists>w2. new_SerializedDataBase (filename (this w)) (files w1) tr = Returns () w2
            \<and> data (this w2) = data (this w)
            \<and> (\<forall>k. get_value (this w2) k = get_value (this w) k))"
proof -
  from assms have wr: "writable (files w (filename (this w)))"
    by (cases "files w (filename (this w))") simp_all
  from read_write_overwrite [OF assms, of "Pickle (data (this w))"] obtain a where
    a: "overwrite (files w (filename (this w))) (Pickle (data (this w)))
          = File a (Pickle (data (this w)))" "may_read a"
    by blast
  from wr a show ?thesis
    by (simp add: save_cases load_cases new_SerializedDataBase_def SerializedDataBase_init_def
          DataBase_init_def get_value_def)
qed

theorem save_load_round_trip_witness:
  "read_write (files (fresh_store [0 \<mapsto> Obj 1] Missing)
     (filename (this (fresh_store [0 \<mapsto> Obj 1] Missing))))
   \<and> (\<exists>w1. save (fresh_store [0 \<mapsto> Obj 1] Missing) = Returns () w1
        \<and> (\<exists>w2. new_SerializedDataBase ''test.pkl'' (files w1) [] = Returns () w2
              \<and> get_value (this w2) 0 = Obj 1))"
proof -
  have h: "read_write (files (fresh_store [0 \<mapsto> Obj 1] Missing)
             (filename (this (fresh_store [0 \<mapsto> Obj 1] Missing))))"
    by simp
  from save_load_round_trip [OF h] obtain w1 where
    s: "save (fresh_store [0 \<mapsto> Obj 1] Missing) = Returns () w1" and
    r: "\<forall>tr. \<exists>w2. new_SerializedDataBase (filename (this (fresh_store [0 \<mapsto> Obj 1] Missing)))
                    (files w1) tr = Returns () w2
            \<and> data (this w2) = data (this (fresh_store [0 \<mapsto> Obj 1] Missing))
            \<and> (\<forall>k. get_value (this w2) k = get_value (this (fresh_store [0 \<mapsto> Obj 1] Missing)) k)"
    by blast
  from r obtain w2 where
    "new_SerializedDataBase ''test.pkl'' (files w1) [] = Returns () w2"
    "get_value (this w2) 0 = get_value (this (fresh_store [0 \<mapsto> Obj 1] Missing)) 0"
    by (metis fresh_store_fields(2))
  moreover have "get_value (this (fresh_store [0 \<mapsto> Obj 1] Missing)) 0 = Obj 1"
    by (simp add: get_value_def contains_def dict_get_def)
  ultimately show ?thesis
    using h s by auto
qed

section \<open>The access coordinator, one call at a time\<close>

lemma and_then_Returns [simp]: "and_then (Returns a) f = f a"
  by (rule ext) (simp add: and_then_def)

lemma and_then_eq_Returns:
  "and_then m f s = Returns b s'' \<longleftrightarrow> (\<exists>a s'. m s = Returns a s' \<and> f a s' = Returns b s'')"
  by (simp add: and_then_def split: result.split)

lemma setattr_fields [simp]:
  "data (setattr p s self) = data self"
  "filename (setattr p s self) = filename self"
  "read_limit (setattr p s self) = read_limit self"
  by (cases p; simp)+

lemma repeat_acquire_semaphore:
  "read_semaphore (this w) = Some (Semaphore b m) \<Longrightarrow> n \<le> m \<Longrightarrow>
   repeat n (acquire ReadSemaphore) w =
     Returns () (w\<lparr>this := (this w)\<lparr>read_semaphore := Some (Semaphore b (m - n))\<rparr>,
                   trace := trace w @ replicate n (Acquire ReadSemaphore)\<rparr>)"
proof (induction n arbitrary: w m)
  case 0
  then show ?case by simp
next
  case (Suc n)
  from Suc.prems obtain m' where m: "m = Suc m'" by (cases m) auto
  let ?w1 = "w\<lparr>this := (this w)\<lparr>read_semaphore := Some (Semaphore b m')\<rparr>,
                trace := trace w @ [Acquire ReadSemaphore]\<rparr>"
  have step: "acquire ReadSemaphore w = Returns True ?w1"
    using Suc.prems m by (simp add: acquire_def)
  have "repeat n (acquire ReadSemaphore) ?w1 =
     Returns () (?w1\<lparr>this := (this ?w1)\<lparr>read_semaphore := Some (Semaphore b (m' - n))\<rparr>,
                   trace := trace ?w1 @ replicate n (Acquire ReadSemaphore)\<rparr>)"
    using Suc.prems m by (intro Suc.IH) simp_all
  then show ?case
    using m by (simp add: and_then_def step replicate_app_Cons_same)
qed

lemma repeat_release_semaphore:
  "read_semaphore (this w) = Some (Semaphore b m) \<Longrightarrow>
   repeat n (release ReadSemaphore) w =
     Returns () (w\<lparr>this := (this w)\<lparr>read_semaphore := Some (Semaphore b (m + n))\<rparr>,
                   trace := trace w @ replicate n (Release ReadSemaphore)\<rparr>)"
proof (induction n arbitrary: w m)
  case 0
  then show ?case by simp
next
  case (Suc n)
  let ?w1 = "w\<lparr>this := (this w)\<lparr>read_semaphore := Some (Semaphore b (Suc m))\<rparr>,
                trace := trace w @ [Release ReadSemaphore]\<rparr>"
  have step: "release ReadSemaphore w = Returns () ?w1"
    using Suc.prems by (simp add: release_def)
  have "repeat n (release ReadSemaphore) ?w1 =
     Returns () (?w1\<lparr>this := (this ?w1)\<lparr>read_semaphore := Some (Semaphore b (Suc m + n))\<rparr>,
                   trace := trace ?w1 @ replicate n (Release ReadSemaphore)\<rparr>)"
    by (intro Suc.IH) simp
  then show ?case
    by (simp add: and_then_def step replicate_app_Cons_same)
qed

lemma is_free_iff: "is_free x \<longleftrightarrow> (\<exists>b. x = Some (Lock b False))"
  by (cases x rule: is_free.cases) auto

lemma permits_iff: "permits x = Some n \<longleftrightarrow> (\<exists>b. x = Some (Semaphore b n))"
  by (cases x rule: permits.cases) auto

lemma write_path:
  fixes w :: "(('k, 'v) SynchronizedDataBase, 'k, 'v) world"
  assumes idle: "idle (this w)"
    and writable: "writable (files w (filename (this w)))"
    and m: "\<And>self. m self = (h (data self), self\<lparr>data := g (data self)\<rparr>)"
  shows "with_stmt WriteLock
       (with_stmt ReadLock
          (and_then get_read_limit (\<lambda>n.
           and_then (repeat n (acquire ReadSemaphore)) (\<lambda>_.
           and_then
             (with_stmt DataLock
                (and_then (super_call m) (\<lambda>result.
                 and_then save (\<lambda>_.
                 Returns result)))) (\<lambda>result.
           and_then get_read_limit (\<lambda>n'.
           and_then (repeat n' (release ReadSemaphore)) (\<lambda>_.
           Returns result))))))) w =
     Returns (h (data (this w)))
       (w\<lparr>this := (this w)\<lparr>data := g (data (this w))\<rparr>,
          files := (files w)(filename (this w) :=
             overwrite (files w (filename (this w))) (Pickle (g (data (this w))))),
          trace := trace w @ write_protocol (the (read_limit (this w))) (filename (this w))\<rparr>)"
proof -
  from idle obtain bw br bd bs n where
    wl: "write_lock (this w) = Some (Lock bw False)" and
    rl: "read_lock (this w) = Some (Lock br False)" and
    dl: "data_lock (this w) = Some (Lock bd False)" and
    lim: "read_limit (this w) = Some n" and
    sem: "read_semaphore (this w) = Some (Semaphore bs n)"
    by (auto simp: idle_def is_free_iff permits_iff)
  show ?thesis
    using wl rl dl lim sem writable
    by (simp add: with_stmt_def and_then_def acquire_def release_def get_read_limit_def
          super_call_def save_cases m write_protocol_def
          repeat_acquire_semaphore [where b = bs and m = n]
          repeat_release_semaphore [where b = bs and m = 0])
qed

lemma with_stmt_eq_Returns:
  "with_stmt p body w = Returns r w' \<longleftrightarrow>
     (\<exists>w1 w2. acquire p w = Returns True w1 \<and> body w1 = Returns r w2 \<and>
        release p w2 = Returns () w')"
  by (auto simp: with_stmt_def and_then_def acquire_def split: result.splits option.splits)

lemma release_persisted: "release p w = Returns u w' \<Longrightarrow> persisted w \<Longrightarrow> persisted w'"
  by (auto simp: release_def persisted_def split: option.splits sum.splits)

lemma repeat_release_persisted:
  "repeat n (release p) w = Returns u w' \<Longrightarrow> persisted w \<Longrightarrow> persisted w'"
proof (induction n arbitrary: w)
  case 0
  then show ?case by simp
next
  case (Suc n)
  then show ?case
    by (auto simp: and_then_eq_Returns dest: release_persisted)
qed

lemma get_read_limit_Returns: "get_read_limit w = Returns n w' \<Longrightarrow> w' = w"
  by (auto simp: get_read_limit_def split: option.splits)

lemma save_persisted: "save w = Returns u w' \<Longrightarrow> persisted w'"
  by (auto simp: save_cases persisted_def split: if_splits)

lemma write_path_persisted:
  assumes "with_stmt WriteLock
       (with_stmt ReadLock
          (and_then get_read_limit (\<lambda>n.
           and_then (repeat n (acquire ReadSemaphore)) (\<lambda>_.
           and_then
             (with_stmt DataLock
                (and_then (super_call m) (\<lambda>result.
                 and_then save (\<lambda>_.
                 Returns result)))) (\<lambda>result.
           and_then get_read_limit (\<lambda>n'.
           and_then (repeat n' (release ReadSemaphore)) (\<lambda>_.
           Returns result))))))) w = Returns r w'"
  shows "persisted w'"
  using assms
  apply (clarsimp simp: with_stmt_eq_Returns and_then_eq_Returns
        dest!: get_read_limit_Returns save_persisted)
  apply (blast intro: release_persisted repeat_release_persisted)
  done

lemma set_value_shape:
  "set_value self k v =
     (\<not> contains (data self) k,
      self\<lparr>data := (if contains (data self) k then data self else (data self)(k \<mapsto> v))\<rparr>)"
  by (simp add: set_value_def)

lemma delete_shape:
  "delete self k = (dict_get (data self) k PyNone, self\<lparr>data := (data self)(k := None)\<rparr>)"
  by (auto simp: delete_def dict_pop_def dict_get_def contains_def fun_upd_idem split: option.split)

lemma value_set_idle:
  assumes "idle (this w)" and "writable (files w (filename (this w)))"
  shows "value_set k v w =
     Returns (\<not> contains (data (this w)) k)
       (w\<lparr>this := (this w)\<lparr>data := (if contains (data (this w)) k then data (this w)
                                        else (data (this w))(k \<mapsto> v))\<rparr>,
          files := (files w)(filename (this w) :=
             overwrite (files w (filename (this w)))
               (Pickle (if contains (data (this w)) k then data (this w)
                        else (data (this w))(k \<mapsto> v)))),
          trace := trace w @ write_protocol (the (read_limit (this w))) (filename (this w))\<rparr>)"
  unfolding value_set_def
  by (rule write_path [OF assms, where h = "\<lambda>d. \<not> contains d k"
        and g = "\<lambda>d. if contains d k then d else d(k \<mapsto> v)"]) (rule set_value_shape)

lemma value_delete_idle:
  assumes "idle (this w)" and "writable (files w (filename (this w)))"
  shows "value_delete k w =
     Returns (dict_get (data (this w)) k PyNone)
       (w\<lparr>this := (this w)\<lparr>data := (data (this w))(k := None)\<rparr>,
          files := (files w)(filename (this w) :=
             overwrite (files w (filename (this w))) (Pickle ((data (this w))(k := None)))),
          trace := trace w @ write_protocol (the (read_limit (this w))) (filename (this w))\<rparr>)"
  unfolding value_delete_def
  by (rule write_path [OF assms, where h = "\<lambda>d. dict_get d k PyNone"
        and g = "\<lambda>d. d(k := None)"]) (rule delete_shape)

text \<open>
  When the path is not writable the write call fails inside the data lock: the three
  \<^verbatim>\<open>with\<close> blocks release their locks, but the loop that gives the permits back is
  skipped, so the mutation stays in memory only, the semaphore stays at zero, and the
  next \<open>value_get\<close> blocks.
\<close>

lemma write_path_unwritable:
  fixes w :: "(('k, 'v) SynchronizedDataBase, 'k, 'v) world"
  assumes idle: "idle (this w)"
    and unwritable: "\<not> writable (files w (filename (this w)))"
    and m: "\<And>self. m self = (h (data self), self\<lparr>data := g (data self)\<rparr>)"
  shows "\<exists>w'. with_stmt WriteLock
       (with_stmt ReadLock
          (and_then get_read_limit (\<lambda>n.
           and_then (repeat n (acquire ReadSemaphore)) (\<lambda>_.
           and_then
             (with_stmt DataLock
                (and_then (super_call m) (\<lambda>result.
                 and_then save (\<lambda>_.
                 Returns result)))) (\<lambda>result.
           and_then get_read_limit (\<lambda>n'.
           and_then (repeat n' (release ReadSemaphore)) (\<lambda>_.
           Returns result))))))) w =
     Raises (case files w (filename (this w)) of
               Unreachable \<Rightarrow> FileNotFoundError
             | Directory \<Rightarrow> IsADirectoryError
             | _ \<Rightarrow> PermissionError) w'
     \<and> data (this w') = g (data (this w)) \<and> files w' = files w
     \<and> permits (read_semaphore (this w')) = Some 0
     \<and> is_free (write_lock (this w')) \<and> is_free (read_lock (this w'))
     \<and> is_free (data_lock (this w'))
     \<and> (\<forall>k. \<exists>w''. value_get k w' = Blocks w'')"
proof -
  from idle obtain bw br bd bs n where
    wl: "write_lock (this w) = Some (Lock bw False)" and
    rl: "read_lock (this w) = Some (Lock br False)" and
    dl: "data_lock (this w) = Some (Lock bd False)" and
    lim: "read_limit (this w) = Some n" and
    sem: "read_semaphore (this w) = Some (Semaphore bs n)"
    by (auto simp: idle_def is_free_iff permits_iff)
  show ?thesis
    using wl rl dl lim sem unwritable
    by (simp add: with_stmt_def and_then_def acquire_def release_def get_read_limit_def
          super_call_def save_cases m value_get_def
          repeat_acquire_semaphore [where b = bs and m = n])
qed

lemma write_unwritable_raises:
  assumes "idle (this w)" and "\<not> writable (files w (filename (this w)))"
  shows "\<exists>e w1 w2. value_set k v w = Raises e w1 \<and> value_delete k w = Raises e w2
       \<and> e = (case files w (filename (this w)) of
                 Unreachable \<Rightarrow> FileNotFoundError
               | Directory \<Rightarrow> IsADirectoryError
               | _ \<Rightarrow> PermissionError)
       \<and> files w1 = files w \<and> files w2 = files w
       \<and> permits (read_semaphore (this w1)) = Some 0
       \<and> permits (read_semaphore (this w2)) = Some 0
       \<and> (\<forall>k'. \<exists>w'. value_get k' w1 = Blocks w')"
  using write_path_unwritable [OF assms, of "\<lambda>self. set_value self k v"
          "\<lambda>d. \<not> contains d k" "\<lambda>d. if contains d k then d else d(k \<mapsto> v)",
          OF set_value_shape]
        write_path_unwritable [OF assms, of "\<lambda>self. delete self k"
          "\<lambda>d. dict_get d k PyNone" "\<lambda>d. d(k := None)", OF delete_shape]
  unfolding value_set_def value_delete_def by blast

lemma idle_fresh: "idle (this (fresh_store d f))"
  by (simp add: idle_def fresh_store_def)

lemma new_store_idle:
  assumes "new_SynchronizedDataBase name mode fs tr = Returns () w"
    and "mode = ''threads'' \<or> mode = ''processes''"
  shows "idle (this w) \<and> read_limit (this w) = Some 10
       \<and> permits (read_semaphore (this w)) = Some 10 \<and> filename (this w) = name
       \<and> files w = fs"
  using assms
  by (auto simp: new_SynchronizedDataBase_def SynchronizedDataBase_init_def
        SerializedDataBase_init_def DataBase_init_def unallocated_def load_cases and_then_def
        idle_def Let_def
        split: file_state.splits blob.splits if_splits)

text \<open>
  A store opened on a name whose directory does not exist is constructed without error,
  since \<open>load\<close> catches the FileNotFoundError; its first write then raises that error
  from \<^verbatim>\<open>open(name, 'wb')\<close> and leaves the semaphore drained.
\<close>

lemma unreachable_store_write_raises:
  assumes "mode = ''threads'' \<or> mode = ''processes''" and "fs name = Unreachable"
  shows "\<exists>w w'. new_SynchronizedDataBase name mode fs tr = Returns () w
       \<and> value_set k v w = Raises FileNotFoundError w'
       \<and> permits (read_semaphore (this w')) = Some 0"
proof -
  obtain w where new: "new_SynchronizedDataBase name mode fs tr = Returns () w"
    using assms
    by (auto simp: new_SynchronizedDataBase_def SynchronizedDataBase_init_def
          SerializedDataBase_init_def DataBase_init_def unallocated_def load_cases and_then_def
          Let_def)
  from new_store_idle [OF new assms(1)] assms(2) have
    "idle (this w)" "files w (filename (this w)) = Unreachable"
    by simp_all
  with write_unwritable_raises [of w k v] new show ?thesis
    by auto
qed

text \<open>
  C4. Whenever \<open>value_set\<close> or \<open>value_delete\<close> returns, the file at the store's path
  holds the pickle of the in-memory mapping. On an idle store with a writable path both
  calls do return, and the dump comes before the data lock, the permits and the two
  locks are released.
\<close>

theorem write_persisted:
  "(value_set k v w = Returns r w' \<longrightarrow>
      contents (files w' (filename (this w'))) = Some (Pickle (data (this w'))))
   \<and> (value_delete k w = Returns r' w'' \<longrightarrow>
      contents (files w'' (filename (this w''))) = Some (Pickle (data (this w''))))
   \<and> (idle (this w) \<and> writable (files w (filename (this w))) \<and> read_limit (this w) = Some n \<longrightarrow>
        (\<exists>r1 w1. value_set k v w = Returns r1 w1
            \<and> trace w1 = trace w @ write_protocol n (filename (this w)))
      \<and> (\<exists>r2 w2. value_delete k w = Returns r2 w2
            \<and> trace w2 = trace w @ write_protocol n (filename (this w))))"
proof -
  have "persisted w'" if "value_set k v w = Returns r w'"
    using that write_path_persisted [of "\<lambda>self. set_value self k v" w r w']
    by (simp add: value_set_def)
  moreover have "persisted w''" if "value_delete k w = Returns r' w''"
    using that write_path_persisted [of "\<lambda>self. delete self k" w r' w'']
    by (simp add: value_delete_def)
  moreover have "\<exists>r1 w1. value_set k v w = Returns r1 w1
            \<and> trace w1 = trace w @ write_protocol n (filename (this w))"
    if "idle (this w)" "writable (files w (filename (this w)))" "read_limit (this w) = Some n"
    using that(3) by (simp add: value_set_idle [OF that(1,2)])
  moreover have "\<exists>r2 w2. value_delete k w = Returns r2 w2
            \<and> trace w2 = trace w @ write_protocol n (filename (this w))"
    if "idle (this w)" "writable (files w (filename (this w)))" "read_limit (this w) = Some n"
    using that(3) by (simp add: value_delete_idle [OF that(1,2)])
  ultimately show ?thesis
    by (simp add: persisted_def)
qed

theorem write_persisted_witness:
  "idle (this (fresh_store Map.empty Missing))
   \<and> writable (files (fresh_store Map.empty Missing)
        (filename (this (fresh_store Map.empty Missing))))
   \<and> read_limit (this (fresh_store Map.empty Missing)) = Some 10
   \<and> (\<exists>r w'. value_set 0 (Obj 1) (fresh_store Map.empty Missing) = Returns r w'
          \<and> trace w' = write_protocol 10 ''test.pkl''
          \<and> contents (files w' (filename (this w'))) = Some (Pickle (data (this w'))))
   \<and> (\<exists>r w'. value_delete 0 (fresh_store Map.empty Missing) = Returns r w'
          \<and> trace w' = write_protocol 10 ''test.pkl''
          \<and> contents (files w' (filename (this w'))) = Some (Pickle (data (this w'))))"
proof -
  let ?w = "fresh_store Map.empty Missing"
  have a: "idle (this ?w)"
    by (rule idle_fresh)
  have b: "writable (files ?w (filename (this ?w)))"
    by simp
  have c: "read_limit (this ?w) = Some 10"
    by simp
  have t: "\<And>r w' r' w''.
      (value_set 0 (Obj 1) ?w = Returns r w' \<longrightarrow>
         contents (files w' (filename (this w'))) = Some (Pickle (data (this w'))))
    \<and> (value_delete 0 ?w = Returns r' w'' \<longrightarrow>
         contents (files w'' (filename (this w''))) = Some (Pickle (data (this w''))))
    \<and> (\<exists>r1 w1. value_set 0 (Obj 1) ?w = Returns r1 w1 \<and> trace w1 = write_protocol 10 ''test.pkl'')
    \<and> (\<exists>r2 w2. value_delete 0 ?w = Returns r2 w2 \<and> trace w2 = write_protocol 10 ''test.pkl'')"
    using write_persisted [where w = ?w and k = 0 and v = "Obj 1" and n = 10] a b c
    by simp
  from t obtain r1 w1 where
    s: "value_set 0 (Obj 1) ?w = Returns r1 w1" "trace w1 = write_protocol 10 ''test.pkl''"
    by blast
  from t obtain r2 w2 where
    d: "value_delete 0 ?w = Returns r2 w2" "trace w2 = write_protocol 10 ''test.pkl''"
    by blast
  from t [of r1 w1 r2 w2] s d
  have "contents (files w1 (filename (this w1))) = Some (Pickle (data (this w1)))"
    "contents (files w2 (filename (this w2))) = Some (Pickle (data (this w2)))"
    by blast+
  with a b c s d show ?thesis
    by blast
qed

text \<open>
  C5. With a permit available, \<open>value_get k\<close> replaces the in-memory mapping by the one
  in the file and returns the binding of \<open>k\<close> there, or None when \<open>k\<close> is unbound in it
  or the file is missing or empty; the mapping held in memory before the call plays no
  part in the result.
\<close>

theorem value_get_reloads:
  assumes "permits (read_semaphore (this w)) = Some (Suc n)"
  shows "(files w (filename (this w)) = File a (Pickle d) \<and> may_read a \<longrightarrow>
            value_get k w =
              Returns (case d k of None \<Rightarrow> PyNone | Some x \<Rightarrow> x)
                (w\<lparr>this := (this w)\<lparr>data := d\<rparr>,
                   trace := trace w @ [Acquire ReadSemaphore, Load (filename (this w)),
                                       Release ReadSemaphore]\<rparr>))
       \<and> (files w (filename (this w)) = Missing \<or> files w (filename (this w)) = Unreachable
          \<or> files w (filename (this w)) = Uncreatable
          \<or> files w (filename (this w)) = File a Exhausted \<and> may_read a \<longrightarrow>
            value_get k w =
              Returns PyNone
                (w\<lparr>this := (this w)\<lparr>data := Map.empty\<rparr>,
                   trace := trace w @ [Acquire ReadSemaphore, Release ReadSemaphore]\<rparr>))"
proof -
  from assms obtain b where "read_semaphore (this w) = Some (Semaphore b (Suc n))"
    by (auto simp: permits_iff)
  then show ?thesis
    by (auto simp: value_get_def and_then_def acquire_def release_def load_cases get_value_def
          contains_def dict_get_def split: option.split)
qed

theorem value_get_reloads_witness:
  "permits (read_semaphore (this (fresh_store [0 \<mapsto> Obj 5] (File ReadWrite (Pickle [0 \<mapsto> Obj 1])))))
     = Some (Suc 9)
   \<and> (\<exists>w'. value_get 0 (fresh_store [0 \<mapsto> Obj 5] (File ReadWrite (Pickle [0 \<mapsto> Obj 1])))
              = Returns (Obj 1) w' \<and> data (this w') = [0 \<mapsto> Obj 1])
   \<and> (\<exists>w'. value_get 0 (fresh_store [0 \<mapsto> Obj 5] Missing) = Returns PyNone w'
              \<and> data (this w') = Map.empty)"
proof -
  have p: "permits (read_semaphore (this (fresh_store d f))) = Some (Suc 9)"
    for d :: "(int, int) dict" and f
    by simp
  show ?thesis
    using p [of "[0 \<mapsto> Obj 5]" "File ReadWrite (Pickle [0 \<mapsto> Obj 1])"]
      value_get_reloads [OF p, of "[0 \<mapsto> Obj 5]" "File ReadWrite (Pickle [0 \<mapsto> Obj 1])"
        ReadWrite "[0 \<mapsto> Obj 1]" 0]
      value_get_reloads [OF p, of "[0 \<mapsto> Obj 5]" Missing ReadWrite Map.empty 0]
    by simp
qed

text \<open>
  C7. On an idle store whose path is writable (\<^verbatim>\<open>open(name, 'wb')\<close> does not raise there),
  \<open>value_set\<close> on a key that is present and \<open>value_delete\<close> on a key that is absent leave
  the mapping as it was, and still perform the whole protocol, writing the unchanged
  mapping to the file.
\<close>

theorem noop_write_runs_protocol:
  assumes "idle (this w)" and "writable (files w (filename (this w)))"
    and "read_limit (this w) = Some n"
  shows "(data (this w) k \<noteq> None \<longrightarrow>
            value_set k v w =
              Returns False
                (w\<lparr>files := (files w)(filename (this w) :=
                      overwrite (files w (filename (this w))) (Pickle (data (this w)))),
                   trace := trace w @ write_protocol n (filename (this w))\<rparr>))
       \<and> (data (this w) k = None \<longrightarrow>
            value_delete k w =
              Returns PyNone
                (w\<lparr>files := (files w)(filename (this w) :=
                      overwrite (files w (filename (this w))) (Pickle (data (this w)))),
                   trace := trace w @ write_protocol n (filename (this w))\<rparr>))"
  using assms(3)
  by (simp add: value_set_idle [OF assms(1,2)] value_delete_idle [OF assms(1,2)]
        contains_def dict_get_def fun_upd_idem)

theorem noop_write_runs_protocol_witness:
  "idle (this (fresh_store [0 \<mapsto> Obj 1] Missing))
   \<and> writable (files (fresh_store [0 \<mapsto> Obj 1] Missing)
        (filename (this (fresh_store [0 \<mapsto> Obj 1] Missing))))
   \<and> read_limit (this (fresh_store [0 \<mapsto> Obj 1] Missing)) = Some 10
   \<and> data (this (fresh_store [0 \<mapsto> Obj 1] Missing)) 0 \<noteq> None
   \<and> data (this (fresh_store [0 \<mapsto> Obj 1] Missing)) 1 = None
   \<and> (\<exists>w'. value_set 0 (Obj 2) (fresh_store [0 \<mapsto> Obj 1] Missing) = Returns False w'
          \<and> data (this w') = [0 \<mapsto> Obj 1]
          \<and> files w' ''test.pkl'' = File ReadWrite (Pickle [0 \<mapsto> Obj 1])
          \<and> trace w' = write_protocol 10 ''test.pkl'')
   \<and> (\<exists>w'. value_delete 1 (fresh_store [0 \<mapsto> Obj 1] Missing) = Returns PyNone w'
          \<and> files w' ''test.pkl'' = File ReadWrite (Pickle [0 \<mapsto> Obj 1])
          \<and> trace w' = write_protocol 10 ''test.pkl'')"
proof -
  let ?w = "fresh_store [0 \<mapsto> Obj 1] Missing"
  have a: "idle (this ?w)" by (rule idle_fresh)
  have b: "writable (files ?w (filename (this ?w)))" by simp
  have c: "read_limit (this ?w) = Some 10" by simp
  show ?thesis
    using a b c noop_write_runs_protocol [OF a b c, of 0 "Obj 2"]
      noop_write_runs_protocol [OF a b c, of 1 "Obj 2"]
    by simp
qed

text \<open>
  C10. With a mode other than \<^verbatim>\<open>'threads'\<close> and \<^verbatim>\<open>'processes'\<close>, the constructor returns
  whenever the initialiser of the base class does, with \<^verbatim>\<open>read_lock\<close>, \<^verbatim>\<open>write_lock\<close>
  and \<^verbatim>\<open>read_semaphore\<close> unassigned; every \<open>value_set\<close>, \<open>value_get\<close> and
  \<open>value_delete\<close> on that object raises AttributeError and changes nothing.
\<close>

theorem unknown_mode_attribute_errors:
  assumes "mode \<noteq> ''threads''" and "mode \<noteq> ''processes''"
    and "new_SerializedDataBase name fs tr = Returns () w0"
  shows "\<exists>w. new_SynchronizedDataBase name mode fs tr = Returns () w
       \<and> data (this w) = data (this w0) \<and> filename (this w) = name
       \<and> read_lock (this w) = None \<and> write_lock (this w) = None
       \<and> read_semaphore (this w) = None
       \<and> (\<forall>k v. value_set k v w = Raises AttributeError w)
       \<and> (\<forall>k. value_get k w = Raises AttributeError w)
       \<and> (\<forall>k. value_delete k w = Raises AttributeError w)"
  using assms
  by (auto simp: new_SynchronizedDataBase_def new_SerializedDataBase_def
        SynchronizedDataBase_init_def SerializedDataBase_init_def DataBase_init_def
        unallocated_def load_cases and_then_def value_set_def value_get_def value_delete_def
        with_stmt_def acquire_def Let_def
        split: file_state.splits blob.splits if_splits)

theorem unknown_mode_attribute_errors_witness:
  "''x'' \<noteq> ''threads'' \<and> ''x'' \<noteq> ''processes''
   \<and> (\<exists>w0. new_SerializedDataBase ''test.pkl'' (\<lambda>_. Missing) []
              = Returns () (w0 :: ((int, int) SerializedDataBase, int, int) world))
   \<and> (\<exists>w. new_SynchronizedDataBase ''test.pkl'' ''x'' (\<lambda>_. Missing) [] = Returns () w
         \<and> read_lock (this w) = None \<and> write_lock (this w) = None
         \<and> read_semaphore (this w) = None
         \<and> value_set (0 :: int) (Obj (1 :: int)) w = Raises AttributeError w
         \<and> value_get 0 w = Raises AttributeError w
         \<and> value_delete 0 w = Raises AttributeError w)"
proof -
  have m: "''x'' \<noteq> ''threads''" "''x'' \<noteq> ''processes''"
    by simp_all
  obtain w0 :: "((int, int) SerializedDataBase, int, int) world" where
    b: "new_SerializedDataBase ''test.pkl'' (\<lambda>_. Missing) [] = Returns () w0"
    by (simp add: new_SerializedDataBase_def SerializedDataBase_init_def load_cases)
  from unknown_mode_attribute_errors [OF m b] m b show ?thesis
    by blast
qed

section \<open>The access coordinator under concurrent calls\<close>

lemma sum_list_map_update:
  "i < length ts \<Longrightarrow>
   sum_list (map f (ts[i := t'])) + f (ts ! i) = sum_list (map f ts) + (f t' :: nat)"
proof (induction ts arbitrary: i)
  case Nil
  then show ?case by simp
next
  case (Cons a ts)
  then show ?case by (cases i) auto
qed

lemma two_le_sum_list:
  "i < length ts \<Longrightarrow> j < length ts \<Longrightarrow> i \<noteq> j \<Longrightarrow>
   f (ts ! i) + f (ts ! j) \<le> (sum_list (map f ts) :: nat)"
proof (induction ts arbitrary: i j)
  case Nil
  then show ?case by simp
next
  case (Cons a ts)
  have one: "k < length ts \<Longrightarrow> f (ts ! k) \<le> sum_list (map f ts)" for k
    by (simp add: member_le_sum_list)
  show ?case
  proof (cases i)
    case 0
    with Cons.prems obtain j' where "j = Suc j'" by (cases j) auto
    with 0 Cons.prems one [of j'] show ?thesis by simp
  next
    case (Suc i')
    show ?thesis
    proof (cases j)
      case 0
      with Suc Cons.prems one [of i'] show ?thesis by simp
    next
      case (Suc j')
      with \<open>i = Suc i'\<close> Cons.prems Cons.IH [of i' j'] show ?thesis by simp
    qed
  qed
qed

lemma step_thread_tokens:
  assumes "step_thread t w = Some (t', w')"
    and "read_limit (this w) = Some R"
    and "permits (read_semaphore (this w)) = Some c"
    and "wf_pc R (at t)"
  shows "read_limit (this w') = Some R \<and> filename (this w') = filename (this w)
       \<and> wf_pc R (at t')
       \<and> (\<exists>c'. permits (read_semaphore (this w')) = Some c' \<and>
             c' + held R (at t') \<le> c + held R (at t))"
proof -
  from assms(3) obtain b where sem: "read_semaphore (this w) = Some (Semaphore b c)"
    by (auto simp: permits_iff)
  show ?thesis
  proof (cases "at t")
    case (W_drain i n)
    with assms sem show ?thesis
      by (auto simp: step_thread_def goto_def acquire_def drain_next_def
            split: option.splits if_splits)
  next
    case (W_refill i n)
    with assms sem show ?thesis
      by (auto simp: step_thread_def goto_def release_def refill_next_def
            split: option.splits if_splits)
  next
    case W_mutate
    with assms sem show ?thesis
      by (auto simp: step_thread_def set_value_def delete_def dict_pop_def
            split: call.splits if_splits option.splits)
  next
    case R_load
    with assms sem show ?thesis
      by (auto simp: step_thread_def goto_def load_cases
            split: file_state.splits blob.splits if_splits)
  qed (use assms sem in \<open>auto simp: step_thread_def goto_def acquire_def release_def
         get_read_limit_def drain_next_def refill_next_def open_wb_def
         split: option.splits if_splits sum.splits call.splits file_state.splits sync.splits\<close>)
qed

lemma writing_held: "writing p \<Longrightarrow> held R p = R"
  by (cases p) simp_all

lemma reading_held: "reading p \<Longrightarrow> held R p = 1"
  by (cases p) simp_all

lemma writing_not_reading: "writing p \<Longrightarrow> \<not> reading p"
  by (cases p) simp_all

lemma safe_exclusion:
  assumes "safe R s" and "0 < R"
    and "i < length (threads s)" and "j < length (threads s)"
    and "writing (at (threads s ! i))"
  shows "\<not> reading (at (threads s ! j))"
proof
  assume r: "reading (at (threads s ! j))"
  with assms(5) have "i \<noteq> j"
    using writing_not_reading by blast
  from two_le_sum_list [OF assms(3,4) this, of "\<lambda>t. held R (at t)"]
  have "R + 1 \<le> sum_list (map (\<lambda>t. held R (at t)) (threads s))"
    using writing_held [OF assms(5), of R] reading_held [OF r, of R] by simp
  with assms(1) show False
    by (auto simp: safe_def)
qed

lemma step_thread_files:
  assumes "step_thread t w = Some (t', w')"
  shows "(at t = W_dump \<longrightarrow> at t' \<noteq> W_dump)
       \<and> (at t \<noteq> W_dump \<and> at t \<noteq> W_open \<longrightarrow> files w' = files w \<and> at t' \<noteq> W_dump)
       \<and> (at t = W_open \<longrightarrow> at t' = W_dump \<or> files w' = files w)"
  using assms
  by (cases "at t")
     (auto simp: step_thread_def goto_def acquire_def release_def get_read_limit_def
        drain_next_def refill_next_def load_cases
        split: option.splits if_splits sum.splits call.splits file_state.splits blob.splits
          prod.splits)

lemma step_thread_data:
  assumes "step_thread t w = Some (t', w')"
  shows "space t' = space t
       \<and> (at t \<noteq> W_mutate \<and> at t \<noteq> R_load \<longrightarrow> data (this w') = data (this w))
       \<and> (at t = R_load \<longrightarrow>
            data (this w') = data (this w) \<and> at t' \<noteq> R_lookup
          \<or> data (this w') = snapshot (files w (filename (this w))))
       \<and> (at t' = R_lookup \<longrightarrow> at t = R_load)"
  using assms
  by (cases "at t")
     (auto simp: step_thread_def goto_def acquire_def release_def get_read_limit_def
        drain_next_def refill_next_def load_cases snapshot_def
        split: option.splits if_splits sum.splits call.splits file_state.splits blob.splits
          prod.splits)

lemma view_fields [simp]:
  "read_limit (this (view s t)) = read_limit (this (shared s))"
  "read_semaphore (this (view s t)) = read_semaphore (this (shared s))"
  "filename (this (view s t)) = filename (this (shared s))"
  "files (view s t) = files (shared s)"
  "data (this (view s t)) = heap s (space t)"
  by (simp_all add: view_def)

lemma safe_step:
  assumes safe: "safe R s" and pos: "0 < R" and nxt: "next_state s i = Some s'"
  shows "safe R s'"
proof -
  let ?ts = "threads s"
  let ?t = "?ts ! i"
  from nxt have i: "i < length ?ts"
    by (auto simp: next_state_def split: if_splits)
  from nxt i obtain t' w' where
    st: "step_thread ?t (view s ?t) = Some (t', w')" and
    s': "s' = s\<lparr>shared := w', heap := (heap s)(space ?t := data (this w')),
                 threads := ?ts[i := t'],
                 committed := (if at ?t = W_dump then files w' (filename (this w'))
                               else committed s)\<rparr>"
    by (auto simp: next_state_def split: option.splits)
  from safe obtain c where
    lim: "read_limit (this (shared s)) = Some R" and
    sem: "permits (read_semaphore (this (shared s))) = Some c" and
    sum: "c + sum_list (map (\<lambda>t. held R (at t)) ?ts) \<le> R" and
    wf: "\<forall>j < length ?ts. wf_pc R (at (?ts ! j))" and
    com: "(\<forall>j < length ?ts. at (?ts ! j) \<noteq> W_dump) \<longrightarrow>
            files (shared s) (filename (this (shared s))) = committed s" and
    look: "\<forall>j < length ?ts. at (?ts ! j) = R_lookup \<longrightarrow>
            heap s (space (?ts ! j)) = snapshot (committed s)"
    by (auto simp: safe_def)
  from step_thread_tokens [OF st, of R c] lim sem wf i obtain c' where
    lim': "read_limit (this w') = Some R" and
    name': "filename (this w') = filename (this (shared s))" and
    wf': "wf_pc R (at t')" and
    sem': "permits (read_semaphore (this w')) = Some c'" and
    le: "c' + held R (at t') \<le> c + held R (at ?t)"
    by auto
  note fl = step_thread_files [OF st]
  note dt = step_thread_data [OF st]
  have no_dump: "\<forall>k < length ?ts. at (?ts ! k) \<noteq> W_dump"
    if "j < length ?ts" "reading (at (?ts ! j))" for j
  proof (intro allI impI notI)
    fix k assume "k < length ?ts" "at (?ts ! k) = W_dump"
    then show False
      using safe_exclusion [OF safe pos _ that(1), of k] that(2) by simp
  qed
  have c1: "c' + sum_list (map (\<lambda>t. held R (at t)) (?ts[i := t'])) \<le> R"
    using sum_list_map_update [OF i, of "\<lambda>t. held R (at t)" t'] le sum by linarith
  have c2: "\<forall>j < length (?ts[i := t']). wf_pc R (at (?ts[i := t'] ! j))"
    using wf wf' i by (auto simp: nth_list_update)
  have c3: "(\<forall>j < length (?ts[i := t']). at (?ts[i := t'] ! j) \<noteq> W_dump) \<longrightarrow>
      files w' (filename (this w')) =
        (if at ?t = W_dump then files w' (filename (this w')) else committed s)"
  proof (intro impI)
    assume a: "\<forall>j < length (?ts[i := t']). at (?ts[i := t'] ! j) \<noteq> W_dump"
    with i have t'nd: "at t' \<noteq> W_dump" by (auto dest: spec [of _ i])
    show "files w' (filename (this w')) =
        (if at ?t = W_dump then files w' (filename (this w')) else committed s)"
    proof (cases "at ?t = W_dump")
      case True
      then show ?thesis by simp
    next
      case False
      with fl t'nd have same: "files w' = files (shared s)" by auto
      have "\<forall>j < length ?ts. at (?ts ! j) \<noteq> W_dump"
      proof (intro allI impI)
        fix j assume j: "j < length ?ts"
        show "at (?ts ! j) \<noteq> W_dump"
        proof (cases "j = i")
          case True
          with False show ?thesis by simp
        next
          case False
          with a j i show ?thesis by (auto simp: nth_list_update dest: spec [of _ j])
        qed
      qed
      with com same name' False show ?thesis by simp
    qed
  qed
  have c4: "\<forall>j < length (?ts[i := t']). at (?ts[i := t'] ! j) = R_lookup \<longrightarrow>
      ((heap s)(space ?t := data (this w'))) (space (?ts[i := t'] ! j)) =
        snapshot (if at ?t = W_dump then files w' (filename (this w')) else committed s)"
  proof (intro allI impI)
    fix j assume j: "j < length (?ts[i := t'])" and l: "at (?ts[i := t'] ! j) = R_lookup"
    show "((heap s)(space ?t := data (this w'))) (space (?ts[i := t'] ! j)) =
        snapshot (if at ?t = W_dump then files w' (filename (this w')) else committed s)"
    proof (cases "j = i")
      case True
      with l i have "at t' = R_lookup" by simp
      with dt have ld: "at ?t = R_load" and
        d: "data (this w') = snapshot (files (shared s) (filename (this (shared s))))"
        by auto
      from ld have "reading (at ?t)" by simp
      from no_dump [OF i this] com
      have "files (shared s) (filename (this (shared s))) = committed s" by blast
      with True i d ld dt show ?thesis by simp
    next
      case False
      with j l i have jl: "at (?ts ! j) = R_lookup" and j': "j < length ?ts"
        by (simp_all add: nth_list_update)
      then have rj: "reading (at (?ts ! j))" by simp
      have nw: "\<not> writing (at ?t)"
        using safe_exclusion [OF safe pos i j'] rj by blast
      then have nd: "at ?t \<noteq> W_dump" and nm: "at ?t \<noteq> W_mutate" by auto
      from no_dump [OF j' rj] com
      have fc: "files (shared s) (filename (this (shared s))) = committed s" by blast
      from look j' jl have hj: "heap s (space (?ts ! j)) = snapshot (committed s)" by blast
      have "space (?ts ! j) = space ?t \<Longrightarrow> data (this w') = snapshot (committed s)"
        using dt nm fc hj by (cases "at ?t = R_load") auto
      with False j' i nd hj show ?thesis by (simp add: nth_list_update)
    qed
  qed
  show ?thesis
    unfolding safe_def s' using lim' sem' c1 c2 c3 c4 name' by simp
qed

lemma held_entry: "held R (at (spawn c)) = 0"
  by (cases "fst c") (simp_all add: spawn_def)

lemma at_spawn: "at (spawn c) = W_enter_write \<or> at (spawn c) = R_acquire"
  by (cases "fst c") (simp_all add: spawn_def)

lemma safe_launch:
  assumes "read_limit (this w) = Some R" and "permits (read_semaphore (this w)) = Some R"
  shows "safe R (launch w h cs)"
proof -
  have "wf_pc R (at (spawn c))" "at (spawn c) \<noteq> R_lookup" for c :: "('a, 'b) call \<times> nat"
    using at_spawn [of c] by auto
  with assms show ?thesis
    by (simp add: safe_def launch_def held_entry)
qed

lemma reachable_safe:
  assumes "reachable s0 s" and "safe R s0" and "0 < R"
  shows "safe R s"
  using assms by (induction rule: reachable.induct) (auto intro: safe_step)

lemma next_state_filename:
  "next_state s i = Some s' \<Longrightarrow> filename (this (shared s')) = filename (this (shared s))"
  by (cases "at (threads s ! i)")
     (auto simp: next_state_def step_thread_def goto_def acquire_def release_def
        get_read_limit_def load_cases view_def set_value_def delete_def dict_pop_def
        split: option.splits if_splits sum.splits call.splits file_state.splits blob.splits
          prod.splits prim.splits)

lemma reachable_filename:
  "reachable s0 s \<Longrightarrow> filename (this (shared s)) = filename (this (shared s0))"
  by (induction rule: reachable.induct) (auto dest: next_state_filename)

lemma run_reachable:
  "reachable s0 s \<Longrightarrow> run s sched = Some s' \<Longrightarrow> reachable s0 s'"
proof (induction sched arbitrary: s)
  case Nil
  then show ?case by simp
next
  case (Cons i sched)
  then show ?case
    by (auto split: option.splits intro: reachable.step)
qed

lemma new_fresh_store:
  "new_SynchronizedDataBase ''test.pkl'' ''threads'' (\<lambda>_. Missing) []
     = Returns () (fresh_store Map.empty Missing)"
  by (simp add: new_SynchronizedDataBase_def SynchronizedDataBase_init_def
        SerializedDataBase_init_def DataBase_init_def unallocated_def load_cases and_then_def
        fresh_store_def Let_def fun_eq_iff)

lemmas exec_simps =
  snapshot_def next_state_def step_thread_def goto_def view_def acquire_def release_def get_read_limit_def
  drain_next_def refill_next_def load_cases open_wb_def pickle_dump_def
  set_value_def delete_def get_value_def contains_def dict_get_def dict_pop_def
  two_calls_def launch_def spawn_def fresh_store_def

lemma writer_inside:
  "\<exists>s. run two_calls [0, 0, 0, 0, 0, 0, 0, 0, 0, 0, 0, 0, 0, 0] = Some s
      \<and> length (threads s) = 2
      \<and> at (threads s ! 0) = W_mutate \<and> at (threads s ! 1) = R_acquire
      \<and> next_state s 1 = None"
  by (simp add: exec_simps)

lemma reader_inside:
  "\<exists>s. run two_calls [1, 1, 0, 0, 0, 0, 0, 0, 0, 0, 0, 0, 0, 0] = Some s
      \<and> length (threads s) = 2
      \<and> at (threads s ! 0) = W_drain 9 10 \<and> at (threads s ! 1) = R_lookup
      \<and> call (threads s ! 1) = ValueGet 0 \<and> snapshot (committed s) 0 = None
      \<and> next_state s 0 = None
      \<and> (\<exists>s'. next_state s 1 = Some s' \<and> result (threads s' ! 1) = Some (RObj PyNone))"
  by (simp add: exec_simps)

text \<open>
  The interleaved semantics and the methods agree: a call that runs alone on an idle
  store goes through its program points to \<open>Returned\<close>, with the result and the world
  that the method gives.
\<close>

lemma solo_add:
  "solo (a + b) t w = (case solo a t w of None \<Rightarrow> None | Some (t', w') \<Rightarrow> solo b t' w')"
  by (induction a arbitrary: t w) (auto split: option.splits)

lemma solo_drain:
  "read_semaphore (this w) = Some (Semaphore b (m + c)) \<Longrightarrow> i + m = n \<Longrightarrow>
   solo m (t\<lparr>at := drain_next i n\<rparr>) w =
     Some (t\<lparr>at := W_enter_data\<rparr>,
           w\<lparr>this := (this w)\<lparr>read_semaphore := Some (Semaphore b c)\<rparr>,
             trace := trace w @ replicate m (Acquire ReadSemaphore)\<rparr>)"
proof (induction m arbitrary: i w)
  case 0
  then show ?case by (simp add: drain_next_def)
next
  case (Suc m)
  let ?w1 = "w\<lparr>this := (this w)\<lparr>read_semaphore := Some (Semaphore b (m + c))\<rparr>,
                trace := trace w @ [Acquire ReadSemaphore]\<rparr>"
  have "solo m (t\<lparr>at := drain_next (Suc i) n\<rparr>) ?w1 =
     Some (t\<lparr>at := W_enter_data\<rparr>,
           ?w1\<lparr>this := (this ?w1)\<lparr>read_semaphore := Some (Semaphore b c)\<rparr>,
               trace := trace ?w1 @ replicate m (Acquire ReadSemaphore)\<rparr>)"
    using Suc.prems by (intro Suc.IH) simp_all
  with Suc.prems show ?case
    by (simp add: drain_next_def step_thread_def goto_def acquire_def replicate_app_Cons_same)
qed

lemma solo_refill:
  "read_semaphore (this w) = Some (Semaphore b c) \<Longrightarrow> i + m = n \<Longrightarrow>
   solo m (t\<lparr>at := refill_next i n\<rparr>) w =
     Some (t\<lparr>at := W_exit_read None\<rparr>,
           w\<lparr>this := (this w)\<lparr>read_semaphore := Some (Semaphore b (c + m))\<rparr>,
             trace := trace w @ replicate m (Release ReadSemaphore)\<rparr>)"
proof (induction m arbitrary: i w c)
  case 0
  then show ?case by (simp add: refill_next_def)
next
  case (Suc m)
  let ?w1 = "w\<lparr>this := (this w)\<lparr>read_semaphore := Some (Semaphore b (Suc c))\<rparr>,
                trace := trace w @ [Release ReadSemaphore]\<rparr>"
  have "solo m (t\<lparr>at := refill_next (Suc i) n\<rparr>) ?w1 =
     Some (t\<lparr>at := W_exit_read None\<rparr>,
           ?w1\<lparr>this := (this ?w1)\<lparr>read_semaphore := Some (Semaphore b (Suc c + m))\<rparr>,
               trace := trace ?w1 @ replicate m (Release ReadSemaphore)\<rparr>)"
    using Suc.prems by (intro Suc.IH) simp_all
  with Suc.prems show ?case
    by (simp add: refill_next_def step_thread_def goto_def release_def replicate_app_Cons_same)
qed

lemma solo_value_set:
  fixes w :: "(('k, 'v) SynchronizedDataBase, 'k, 'v) world"
  assumes idle: "idle (this w)"
    and writable: "writable (files w (filename (this w)))"
    and lim: "read_limit (this w) = Some n"
  shows "\<exists>t' r w'. value_set k v w = Returns r w'
       \<and> solo (2 * n + 11) (spawn (ValueSet k v, sp)) w = Some (t', w')
       \<and> at t' = Returned \<and> result t' = Some (RBool r)"
proof -
  from idle lim obtain bw br bd bs where
    wl: "write_lock (this w) = Some (Lock bw False)" and
    rl: "read_lock (this w) = Some (Lock br False)" and
    dl: "data_lock (this w) = Some (Lock bd False)" and
    sem: "read_semaphore (this w) = Some (Semaphore bs n)"
    by (auto simp: idle_def is_free_iff permits_iff)
  let ?t = "spawn (ValueSet k v, sp)"
  have split: "2 * n + 11 = 3 + (n + (6 + (n + 2)))"
    by simp
  let ?d = "if contains (data (this w)) k then data (this w) else (data (this w))(k \<mapsto> v)"
  let ?r = "\<not> contains (data (this w)) k"
  let ?name = "filename (this w)"
  let ?w3 = "w\<lparr>this := (this w)\<lparr>write_lock := Some (Lock bw True),
                                  read_lock := Some (Lock br True)\<rparr>,
                trace := trace w @ [Acquire WriteLock, Acquire ReadLock]\<rparr>"
  let ?w4 = "?w3\<lparr>this := (this ?w3)\<lparr>read_semaphore := Some (Semaphore bs 0)\<rparr>,
                  trace := trace ?w3 @ replicate n (Acquire ReadSemaphore)\<rparr>"
  let ?w5 = "?w4\<lparr>this := (this ?w4)\<lparr>data := ?d\<rparr>,
                  files := (files w)(?name := overwrite (files w ?name) (Pickle ?d)),
                  trace := trace ?w4 @ [Acquire DataLock, Dump ?name, Release DataLock]\<rparr>"
  let ?w6 = "?w5\<lparr>this := (this ?w5)\<lparr>read_semaphore := Some (Semaphore bs (0 + n))\<rparr>,
                  trace := trace ?w5 @ replicate n (Release ReadSemaphore)\<rparr>"
  let ?w7 = "?w6\<lparr>this := (this ?w6)\<lparr>write_lock := Some (Lock bw False),
                                     read_lock := Some (Lock br False)\<rparr>,
                  trace := trace ?w6 @ [Release ReadLock, Release WriteLock]\<rparr>"
  let ?t5 = "?t\<lparr>result := Some (RBool ?r)\<rparr>"
  have s3: "solo 3 ?t w = Some (?t\<lparr>at := drain_next 0 n\<rparr>, ?w3)"
    using wl rl lim
    by (simp add: numeral_3_eq_3 spawn_def step_thread_def goto_def acquire_def
          get_read_limit_def)
  have s4: "solo n (?t\<lparr>at := drain_next 0 n\<rparr>) ?w3 = Some (?t\<lparr>at := W_enter_data\<rparr>, ?w4)"
    using sem by (intro solo_drain) simp_all
  have s5: "solo 6 (?t\<lparr>at := W_enter_data\<rparr>) ?w4 = Some (?t5\<lparr>at := refill_next 0 n\<rparr>, ?w5)"
    using dl lim writable
    by (simp add: eval_nat_numeral spawn_def step_thread_def goto_def acquire_def release_def
          get_read_limit_def set_value_def open_wb_cases pickle_dump_def)
  have s6: "solo n (?t5\<lparr>at := refill_next 0 n\<rparr>) ?w5 = Some (?t5\<lparr>at := W_exit_read None\<rparr>, ?w6)"
    by (intro solo_refill) simp_all
  have s7: "solo 2 (?t5\<lparr>at := W_exit_read None\<rparr>) ?w6 = Some (?t5\<lparr>at := Returned\<rparr>, ?w7)"
    by (simp add: eval_nat_numeral step_thread_def goto_def release_def)
  have run: "solo (2 * n + 11) ?t w = Some (?t5\<lparr>at := Returned\<rparr>, ?w7)"
    unfolding split by (simp only: solo_add s3 s4 s5 s6 s7 option.case prod.case)
  have "value_set k v w = Returns ?r ?w7"
    using wl rl dl sem lim
    by (simp add: value_set_idle [OF idle writable] write_protocol_def)
  with run show ?thesis
    by simp
qed

lemma solo_value_delete:
  fixes w :: "(('k, 'v) SynchronizedDataBase, 'k, 'v) world"
  assumes idle: "idle (this w)"
    and writable: "writable (files w (filename (this w)))"
    and lim: "read_limit (this w) = Some n"
  shows "\<exists>t' r w'. value_delete k w = Returns r w'
       \<and> solo (2 * n + 11) (spawn (ValueDelete k, sp)) w = Some (t', w')
       \<and> at t' = Returned \<and> result t' = Some (RObj r)"
proof -
  from idle lim obtain bw br bd bs where
    wl: "write_lock (this w) = Some (Lock bw False)" and
    rl: "read_lock (this w) = Some (Lock br False)" and
    dl: "data_lock (this w) = Some (Lock bd False)" and
    sem: "read_semaphore (this w) = Some (Semaphore bs n)"
    by (auto simp: idle_def is_free_iff permits_iff)
  let ?t = "spawn (ValueDelete k, sp)"
  have split: "2 * n + 11 = 3 + (n + (6 + (n + 2)))"
    by simp
  let ?d = "(data (this w))(k := None)"
  let ?r = "dict_get (data (this w)) k PyNone"
  let ?name = "filename (this w)"
  let ?w3 = "w\<lparr>this := (this w)\<lparr>write_lock := Some (Lock bw True),
                                  read_lock := Some (Lock br True)\<rparr>,
                trace := trace w @ [Acquire WriteLock, Acquire ReadLock]\<rparr>"
  let ?w4 = "?w3\<lparr>this := (this ?w3)\<lparr>read_semaphore := Some (Semaphore bs 0)\<rparr>,
                  trace := trace ?w3 @ replicate n (Acquire ReadSemaphore)\<rparr>"
  let ?w5 = "?w4\<lparr>this := (this ?w4)\<lparr>data := ?d\<rparr>,
                  files := (files w)(?name := overwrite (files w ?name) (Pickle ?d)),
                  trace := trace ?w4 @ [Acquire DataLock, Dump ?name, Release DataLock]\<rparr>"
  let ?w6 = "?w5\<lparr>this := (this ?w5)\<lparr>read_semaphore := Some (Semaphore bs (0 + n))\<rparr>,
                  trace := trace ?w5 @ replicate n (Release ReadSemaphore)\<rparr>"
  let ?w7 = "?w6\<lparr>this := (this ?w6)\<lparr>write_lock := Some (Lock bw False),
                                     read_lock := Some (Lock br False)\<rparr>,
                  trace := trace ?w6 @ [Release ReadLock, Release WriteLock]\<rparr>"
  let ?t5 = "?t\<lparr>result := Some (RObj ?r)\<rparr>"
  have s3: "solo 3 ?t w = Some (?t\<lparr>at := drain_next 0 n\<rparr>, ?w3)"
    using wl rl lim
    by (simp add: numeral_3_eq_3 spawn_def step_thread_def goto_def acquire_def
          get_read_limit_def)
  have s4: "solo n (?t\<lparr>at := drain_next 0 n\<rparr>) ?w3 = Some (?t\<lparr>at := W_enter_data\<rparr>, ?w4)"
    using sem by (intro solo_drain) simp_all
  have s5: "solo 6 (?t\<lparr>at := W_enter_data\<rparr>) ?w4 = Some (?t5\<lparr>at := refill_next 0 n\<rparr>, ?w5)"
    using dl lim writable
    by (simp add: eval_nat_numeral spawn_def step_thread_def goto_def acquire_def release_def
          get_read_limit_def delete_shape open_wb_cases pickle_dump_def)
  have s6: "solo n (?t5\<lparr>at := refill_next 0 n\<rparr>) ?w5 = Some (?t5\<lparr>at := W_exit_read None\<rparr>, ?w6)"
    by (intro solo_refill) simp_all
  have s7: "solo 2 (?t5\<lparr>at := W_exit_read None\<rparr>) ?w6 = Some (?t5\<lparr>at := Returned\<rparr>, ?w7)"
    by (simp add: eval_nat_numeral step_thread_def goto_def release_def)
  have run: "solo (2 * n + 11) ?t w = Some (?t5\<lparr>at := Returned\<rparr>, ?w7)"
    unfolding split by (simp only: solo_add s3 s4 s5 s6 s7 option.case prod.case)
  have "value_delete k w = Returns ?r ?w7"
    using wl rl dl sem lim
    by (simp add: value_delete_idle [OF idle writable] write_protocol_def)
  with run show ?thesis
    by simp
qed

lemma solo_value_get:
  fixes w :: "(('k, 'v) SynchronizedDataBase, 'k, 'v) world"
  assumes "permits (read_semaphore (this w)) = Some (Suc n)"
    and "loadable (files w (filename (this w)))"
  shows "\<exists>t' r w'. value_get k w = Returns r w'
       \<and> solo 4 (spawn (ValueGet k, sp)) w = Some (t', w')
       \<and> at t' = Returned \<and> result t' = Some (RObj r)"
proof -
  from assms(1) obtain b where "read_semaphore (this w) = Some (Semaphore b (Suc n))"
    by (auto simp: permits_iff)
  with assms(2) show ?thesis
    by (cases "files w (filename (this w))" rule: loadable.cases)
       (simp_all add: eval_nat_numeral spawn_def step_thread_def goto_def acquire_def
          release_def value_get_def and_then_def load_cases)
qed

text \<open>
  C8. Take a store constructed in one of the two recognised modes and any calls started
  on it. In every state any interleaving can reach: no writer is in its mutate-and-persist
  section while a reader is in its restore-and-lookup section; a writer in that section
  has drained the semaphore to zero; while a reader is in its section the file is the
  committed one (the initial file, or what a completed dump wrote), never one that a
  \<open>save\<close> has truncated and not yet written; and the value a reader looks up is the
  binding of its key in the committed mapping.
\<close>

theorem reader_writer_exclusion:
  assumes "new_SynchronizedDataBase name mode fs tr = Returns () w"
    and "mode = ''threads'' \<or> mode = ''processes''"
    and "reachable (launch w h cs) s"
  shows "(\<forall>i < length (threads s). \<forall>j < length (threads s).
            writing (at (threads s ! i)) \<longrightarrow> \<not> reading (at (threads s ! j)))
       \<and> (\<forall>i < length (threads s).
            writing (at (threads s ! i)) \<longrightarrow>
            permits (read_semaphore (this (shared s))) = Some 0)
       \<and> (\<forall>j < length (threads s).
            reading (at (threads s ! j)) \<longrightarrow> files (shared s) name = committed s)
       \<and> (\<forall>j < length (threads s). \<forall>s'.
            at (threads s ! j) = R_lookup \<and> next_state s j = Some s' \<longrightarrow>
            (\<exists>k. call (threads s ! j) = ValueGet k \<and>
                 result (threads s' ! j) =
                   Some (RObj (case snapshot (committed s) k of None \<Rightarrow> PyNone | Some x \<Rightarrow> x))))"
proof -
  note new = new_store_idle [OF assms(1,2)]
  from new have "safe 10 (launch w h cs)"
    by (intro safe_launch) simp_all
  from reachable_safe [OF assms(3) this] have safe: "safe 10 s"
    by simp
  from reachable_filename [OF assms(3)] new
  have name: "filename (this (shared s)) = name"
    by (simp add: launch_def)
  have excl: "\<not> reading (at (threads s ! j))"
    if "i < length (threads s)" "j < length (threads s)" "writing (at (threads s ! i))" for i j
    using safe_exclusion [OF safe _ that] by simp
  have drained: "permits (read_semaphore (this (shared s))) = Some 0"
    if i: "i < length (threads s)" and w: "writing (at (threads s ! i))" for i
  proof -
    from safe obtain c where
      c: "permits (read_semaphore (this (shared s))) = Some c" and
      le: "c + sum_list (map (\<lambda>t. held 10 (at t)) (threads s)) \<le> 10"
      by (auto simp: safe_def)
    have "held 10 (at (threads s ! i)) \<le> sum_list (map (\<lambda>t. held 10 (at t)) (threads s))"
      using i by (simp add: member_le_sum_list)
    with le writing_held [OF w, of 10] have "c = 0"
      by simp
    with c show ?thesis
      by simp
  qed
  have whole: "files (shared s) name = committed s"
    if j: "j < length (threads s)" and r: "reading (at (threads s ! j))" for j
  proof -
    have "\<forall>i < length (threads s). at (threads s ! i) \<noteq> W_dump"
      using excl [OF _ j] r by fastforce
    with safe name show ?thesis
      by (auto simp: safe_def)
  qed
  have obs: "\<exists>k. call (threads s ! j) = ValueGet k \<and>
                 result (threads s' ! j) =
                   Some (RObj (case snapshot (committed s) k of None \<Rightarrow> PyNone | Some x \<Rightarrow> x))"
    if j: "j < length (threads s)" and l: "at (threads s ! j) = R_lookup"
      and n: "next_state s j = Some s'" for j s'
  proof -
    from safe j l have "heap s (space (threads s ! j)) = snapshot (committed s)"
      by (auto simp: safe_def)
    with j l n show ?thesis
      by (auto simp: next_state_def step_thread_def view_def get_value_def contains_def
            dict_get_def split: call.splits option.splits)
  qed
  from excl drained whole obs show ?thesis
    by blast
qed

theorem reader_writer_exclusion_witness:
  "new_SynchronizedDataBase ''test.pkl'' ''threads'' (\<lambda>_. Missing) []
     = Returns () (fresh_store Map.empty Missing)
   \<and> (\<exists>s. reachable two_calls s \<and> writing (at (threads s ! 0))
          \<and> \<not> reading (at (threads s ! 1)) \<and> next_state s 1 = None
          \<and> permits (read_semaphore (this (shared s))) = Some 0)
   \<and> (\<exists>s s'. reachable two_calls s \<and> reading (at (threads s ! 1))
          \<and> \<not> writing (at (threads s ! 0)) \<and> next_state s 0 = None
          \<and> files (shared s) ''test.pkl'' = committed s
          \<and> next_state s 1 = Some s' \<and> result (threads s' ! 1) = Some (RObj PyNone))"
proof -
  obtain s1 where
    r1: "run two_calls [0, 0, 0, 0, 0, 0, 0, 0, 0, 0, 0, 0, 0, 0] = Some s1" and
    n1: "length (threads s1) = 2" and
    w1: "at (threads s1 ! 0) = W_mutate" and
    b1: "next_state s1 1 = None"
    using writer_inside by blast
  obtain s2 s2' where
    r2: "run two_calls [1, 1, 0, 0, 0, 0, 0, 0, 0, 0, 0, 0, 0, 0] = Some s2" and
    n2: "length (threads s2) = 2" and
    l2: "at (threads s2 ! 1) = R_lookup" and
    b2: "next_state s2 0 = None" and
    x2: "next_state s2 1 = Some s2'"
    using reader_inside by blast
  have reach1: "reachable two_calls s1"
    using run_reachable [OF reachable.start r1] .
  have reach2: "reachable two_calls s2"
    using run_reachable [OF reachable.start r2] .
  have mode: "''threads'' = ''threads'' \<or> ''threads'' = ''processes''"
    by simp
  note t1 = reader_writer_exclusion [OF new_fresh_store mode reach1 [unfolded two_calls_def]]
  note t2 = reader_writer_exclusion [OF new_fresh_store mode reach2 [unfolded two_calls_def]]
  have a: "\<not> reading (at (threads s1 ! 1))"
    using t1 [THEN conjunct1, rule_format, of 0 1] n1 w1 by simp
  have a': "permits (read_semaphore (this (shared s1))) = Some 0"
    using t1 [THEN conjunct2, THEN conjunct1, rule_format, of 0] n1 w1 by simp
  have b: "\<not> writing (at (threads s2 ! 0))"
    using t2 [THEN conjunct1, rule_format, of 0 1] n2 l2 by auto
  have c: "files (shared s2) ''test.pkl'' = committed s2"
    using t2 [THEN conjunct2, THEN conjunct2, THEN conjunct1, rule_format, of 1] n2 l2 by simp
  have "\<exists>k. call (threads s2 ! 1) = ValueGet k \<and>
          result (threads s2' ! 1) =
            Some (RObj (case snapshot (committed s2) k of None \<Rightarrow> PyNone | Some x \<Rightarrow> x))"
    using t2 [THEN conjunct2, THEN conjunct2, THEN conjunct2, rule_format, of 1 s2'] n2 l2 x2
    by simp
  moreover have "call (threads s2 ! 1) = ValueGet 0" and "snapshot (committed s2) 0 = None"
    using reader_inside r2 by auto
  ultimately have d: "result (threads s2' ! 1) = Some (RObj PyNone)"
    by auto
  show ?thesis
    using new_fresh_store reach1 reach2 w1 l2 a a' b c d b1 b2 x2 by auto
qed

end
